theory Spec2Isabelle
  imports Main
begin

section \<open>Python values\<close>

text \<open>
  A Python \<^verbatim>\<open>bytes\<close> object is a list of 8-bit characters. The only \<^verbatim>\<open>str\<close> the analyser
  ever scans is the result of \<^verbatim>\<open>data.decode("ascii", "ignore")\<close>, whose characters are all
  below 128, so it is a list of the same characters.
\<close>

type_synonym bytes = "char list"

abbreviation bs :: char where
  "bs \<equiv> CHR 0x5C"

text \<open>\<^verbatim>\<open>string.printable\<close>: digits, letters, punctuation and the six whitespace characters.\<close>

definition string_printable :: string where
  "string_printable =
     ''0123456789abcdefghijklmnopqrstuvwxyzABCDEFGHIJKLMNOPQRSTUVWXYZ''
     @ [CHR ''!'', CHR 0x22, CHR ''#'', CHR ''$'', CHR ''%'', CHR ''&'', CHR 0x27, CHR ''('', CHR '')'',
        CHR ''*'', CHR ''+'', CHR '','', CHR ''-'', CHR ''.'', CHR ''/'', CHR '':'', CHR '';'', CHR ''<'',
        CHR ''='', CHR ''>'', CHR ''?'', CHR ''@'', CHR ''['', bs, CHR '']'', CHR ''^'', CHR ''_'',
        CHR 0x60, CHR ''{'', CHR ''|'', CHR ''}'', CHR ''~'']
     @ [CHR '' '', CHR 0x09, CHR 0x0A, CHR 0x0D, CHR 0x0B, CHR 0x0C]"

text \<open>
  The characters below 128 for which \<^verbatim>\<open>str.isspace\<close> holds. They are what \<^verbatim>\<open>\s\<close> matches in
  a \<^verbatim>\<open>str\<close> pattern and what \<^verbatim>\<open>str.strip()\<close> removes.
\<close>

definition whitespace :: "char list" where
  "whitespace = [CHR 0x09, CHR 0x0A, CHR 0x0B, CHR 0x0C, CHR 0x0D,
                 CHR 0x1C, CHR 0x1D, CHR 0x1E, CHR 0x1F, CHR '' '']"

definition digits :: "char list" where
  "digits = ''0123456789''"

text \<open>\<^verbatim>\<open>data.decode("ascii", "ignore")\<close>: bytes from 128 on are dropped.\<close>

definition decode_ascii_ignore :: "bytes \<Rightarrow> string" where
  "decode_ascii_ignore data = filter (\<lambda>c. (of_char c :: nat) < 128) data"

text \<open>\<^verbatim>\<open>s.strip()\<close>: leading and trailing whitespace removed.\<close>

definition strip :: "string \<Rightarrow> string" where
  "strip s = rev (dropWhile (\<lambda>c. c \<in> set whitespace) (rev (dropWhile (\<lambda>c. c \<in> set whitespace) s)))"

text \<open>\<^verbatim>\<open>s.startswith(w)\<close>, returning what follows the prefix.\<close>

fun strip_prefix :: "string \<Rightarrow> string \<Rightarrow> string option" where
  "strip_prefix [] s = Some s"
| "strip_prefix (c # cs) [] = None"
| "strip_prefix (c # cs) (x # xs) = (if c = x then strip_prefix cs xs else None)"

text \<open>\<^verbatim>\<open>sub in s\<close> on strings: \<^verbatim>\<open>sub\<close> occurs somewhere in \<^verbatim>\<open>s\<close>.\<close>

fun contains :: "string \<Rightarrow> string \<Rightarrow> bool" where
  "contains sub [] = (sub = [])"
| "contains sub (x # xs) =
     (case strip_prefix sub (x # xs) of Some _ \<Rightarrow> True | None \<Rightarrow> contains sub xs)"

text \<open>
  The values the constructor can be handed as \<^verbatim>\<open>data\<close>. \<^verbatim>\<open>isinstance(data, bytes)\<close> holds
  of \<open>PyBytes\<close> only (\<^verbatim>\<open>bytearray\<close> is not a subclass of \<^verbatim>\<open>bytes\<close>); below it is the
  \<open>PyBytes\<close> case of a case distinction.
\<close>

datatype pyobj = PyNone | PyBytes bytes | PyByteArray bytes | PyStr string | PyInt int

fun truthy :: "pyobj \<Rightarrow> bool" where
  "truthy PyNone = False"
| "truthy (PyBytes b) = (b \<noteq> [])"
| "truthy (PyByteArray b) = (b \<noteq> [])"
| "truthy (PyStr s) = (s \<noteq> [])"
| "truthy (PyInt i) = (i \<noteq> 0)"

datatype error = ValueError | TypeError | ParsingException | IndexError | FileNotFoundError

section \<open>Regular expressions as \<^verbatim>\<open>re\<close> matches them\<close>

text \<open>
  The patterns of \<^verbatim>\<open>core.py\<close> use literals, character classes, sequence, alternation, the
  greedy repetitions \<^verbatim>\<open>*\<close>, \<^verbatim>\<open>+\<close>, \<^verbatim>\<open>?\<close> and capturing groups. \<open>rmatch r s\<close> lists every
  way \<open>r\<close> matches at the start of \<open>s\<close>, as (matched text, rest, captures), in the order in
  which the backtracking matcher of \<^verbatim>\<open>re\<close> tries them: the left alternative before the right
  one, one more iteration before stopping. The head of the list is the match \<^verbatim>\<open>re\<close> reports.
  An iteration of \<open>Star\<close> that consumes nothing ends the repetition, as in \<^verbatim>\<open>re\<close>.
\<close>

type_synonym caps = "(string \<times> string) list"

datatype regex =
    Lit string
  | Cls "char list"
  | NCls "char list"
  | Seq regex regex
  | Alt regex regex
  | Star regex
  | Grp string regex

function rmatch :: "regex \<Rightarrow> string \<Rightarrow> (string \<times> string \<times> caps) list" where
  "rmatch (Lit w) s = (case strip_prefix w s of None \<Rightarrow> [] | Some t \<Rightarrow> [(w, t, [])])"
| "rmatch (Cls cs) s =
     (case s of [] \<Rightarrow> [] | x # xs \<Rightarrow> if x \<in> set cs then [([x], xs, [])] else [])"
| "rmatch (NCls cs) s =
     (case s of [] \<Rightarrow> [] | x # xs \<Rightarrow> if x \<notin> set cs then [([x], xs, [])] else [])"
| "rmatch (Seq r1 r2) s =
     concat (map (\<lambda>m1. map (\<lambda>m2. (fst m1 @ fst m2, fst (snd m2), snd (snd m2) @ snd (snd m1)))
                            (rmatch r2 (fst (snd m1))))
                 (rmatch r1 s))"
| "rmatch (Alt r1 r2) s = rmatch r1 s @ rmatch r2 s"
| "rmatch (Star r) s =
     concat (map (\<lambda>m1. if length (fst (snd m1)) < length s
                        then map (\<lambda>m2. (fst m1 @ fst m2, fst (snd m2), snd (snd m2) @ snd (snd m1)))
                                 (rmatch (Star r) (fst (snd m1)))
                        else [])
                 (rmatch r s))
     @ [([], s, [])]"
| "rmatch (Grp n r) s = map (\<lambda>m. (fst m, fst (snd m), (n, fst m) # snd (snd m))) (rmatch r s)"
  by pat_completeness auto
termination
  by (relation "measure size <*lex*> measure length") auto

text \<open>
  The equation for \<open>Star\<close> calls \<open>rmatch\<close> on \<open>Star\<close> again, so it is unfolded by hand.
\<close>

declare rmatch.simps(6) [simp del]

text \<open>\<^verbatim>\<open>r+\<close> and \<^verbatim>\<open>r?\<close>, both greedy.\<close>

definition Plus :: "regex \<Rightarrow> regex" where
  "Plus r = Seq r (Star r)"

definition Opt :: "regex \<Rightarrow> regex" where
  "Opt r = Alt r (Lit [])"

fun seqs :: "regex list \<Rightarrow> regex" where
  "seqs [] = Lit []"
| "seqs [r] = r"
| "seqs (r # rs) = Seq r (seqs rs)"

fun alts :: "regex list \<Rightarrow> regex" where
  "alts [] = Cls []"
| "alts [r] = r"
| "alts (r # rs) = Alt r (alts rs)"

text \<open>
  A match object: the matched text and the captures. \<^verbatim>\<open>match.group(name)\<close> reads a capture;
  every group of the patterns below lies outside any alternation and repetition, so it is
  set in every match.
\<close>

type_synonym rematch = "string \<times> caps"

definition match_group :: "rematch \<Rightarrow> string \<Rightarrow> string" where
  "match_group m name = (case map_of (snd m) name of Some v \<Rightarrow> v | None \<Rightarrow> [])"

text \<open>\<^verbatim>\<open>re.search\<close>: the match at the leftmost position that has one.\<close>

fun re_search :: "regex \<Rightarrow> string \<Rightarrow> rematch option" where
  "re_search r [] = (case rmatch r [] of [] \<Rightarrow> None | m # _ \<Rightarrow> Some (fst m, snd (snd m)))"
| "re_search r (x # xs) =
     (case rmatch r (x # xs) of [] \<Rightarrow> re_search r xs | m # _ \<Rightarrow> Some (fst m, snd (snd m)))"

text \<open>
  \<^verbatim>\<open>re.finditer\<close>: the non-overlapping matches from left to right; after a match the scan
  resumes where the match ended. No pattern below matches the empty string; for one that
  did, the scan here moves on by one character.
\<close>

function finditer :: "regex \<Rightarrow> string \<Rightarrow> rematch list" where
  "finditer r [] = (case rmatch r [] of [] \<Rightarrow> [] | m # _ \<Rightarrow> [(fst m, snd (snd m))])"
| "finditer r (x # xs) =
     (case rmatch r (x # xs) of
        [] \<Rightarrow> finditer r xs
      | m # _ \<Rightarrow> (fst m, snd (snd m)) #
                 (if length (fst (snd m)) < length (x # xs) then finditer r (fst (snd m))
                  else finditer r xs))"
  by pat_completeness auto
termination
  by (relation "measure (\<lambda>(r, s). length s)") auto

section \<open>The analyser of \<^verbatim>\<open>core.py\<close>\<close>

definition OBSERVATIONS :: "(string \<times> string) list" where
  "OBSERVATIONS =
     [(''OBS001'', ''File contains bytes outside ASCII printable range''),
      (''OBS002'', ''Non-standard RTF file marker found (expected '' @ [bs] @ ''rtf1)''),
      (''OBS003'', ''Change identifier found which is not in the RSID table (document likely modified)''),
      (''OBS004'', ''Document contains images with a fixed width/height''),
      (''OBS005'', ''Document contains information group tags''),
      (''OBS006'', ''Document contains image identifiers (bliptags)''),
      (''OBS007'', ''Document contains change tracking (RSID tags)'')]"

record results =
  loose_strings :: "string set"
  strict_strings :: "string set"
  observations :: "string list"

text \<open>\<^verbatim>\<open>_add_observation\<close>\<close>

definition add_observation :: "string \<Rightarrow> results \<Rightarrow> error + results" where
  "add_observation reference res =
     (if map_of OBSERVATIONS reference = None then Inl IndexError
      else Inr (res\<lparr>observations := observations res @ [reference]\<rparr>))"

text \<open>A \<^verbatim>\<open>for\<close> loop whose body may raise: the first error ends it.\<close>

fun for_each :: "('a \<Rightarrow> 's \<Rightarrow> error + 's) \<Rightarrow> 'a list \<Rightarrow> 's \<Rightarrow> error + 's" where
  "for_each f [] s = Inr s"
| "for_each f (x # xs) s = (case f x s of Inl e \<Rightarrow> Inl e | Inr s' \<Rightarrow> for_each f xs s')"

subsection \<open>\<^verbatim>\<open>_find_image_sizes\<close>\<close>

text \<open>\<^verbatim>\<open>(?P<longest_match>(?:\\(?:picw|pich|picwgoal|pichgoal)\d+\s*)+)\<close>\<close>

definition image_size_re :: regex where
  "image_size_re =
     Grp ''longest_match''
       (Plus (seqs [Lit [bs],
                    alts [Lit ''picw'', Lit ''pich'', Lit ''picwgoal'', Lit ''pichgoal''],
                    Plus (Cls digits),
                    Star (Cls whitespace)]))"

definition find_image_sizes :: "string \<Rightarrow> results \<Rightarrow> error + results" where
  "find_image_sizes text res =
     (case fold (\<lambda>m (r, found).
                   (r\<lparr>loose_strings := insert (strip (match_group m ''longest_match'')) (loose_strings r)\<rparr>,
                    found + 1))
                (finditer image_size_re text) (res, 0::nat) of
        (res', found) \<Rightarrow> if found \<noteq> 0 then add_observation ''OBS004'' res' else Inr res')"

subsection \<open>\<^verbatim>\<open>_find_information_group\<close>\<close>

definition info_tags :: "string list" where
  "info_tags = [''title'', ''subject'', ''author'', ''manager'', ''category'', ''keywords'',
                ''operator'', ''company'', ''creatim'', ''revtim'', ''doccomm'']"

text \<open>\<^verbatim>\<open>(?P<whole_tag>{\s*\\(?:title|...|doccomm)\s+([^}]+)\s*})\<close>\<close>

definition info_group_re :: regex where
  "info_group_re =
     Grp ''whole_tag''
       (seqs [Lit ''{'', Star (Cls whitespace), Lit [bs], alts (map Lit info_tags),
              Plus (Cls whitespace), Grp ''2'' (Plus (NCls ''}'')), Star (Cls whitespace),
              Lit ''}''])"

definition find_information_group :: "string \<Rightarrow> results \<Rightarrow> error + results" where
  "find_information_group text res =
     (case fold (\<lambda>m (r, found).
                   (r\<lparr>loose_strings := insert (match_group m ''whole_tag'') (loose_strings r)\<rparr>,
                    found + 1))
                (finditer info_group_re text) (res, 0::nat) of
        (res', found) \<Rightarrow> if found = 0 then Inr res' else add_observation ''OBS005'' res')"

subsection \<open>\<^verbatim>\<open>_find_blip_tags\<close>\<close>

text \<open>\<^verbatim>\<open>\\(?P<whole_tag>bliptag-?\d+)\<close>\<close>

definition bliptag_re :: regex where
  "bliptag_re =
     Seq (Lit [bs]) (Grp ''whole_tag'' (seqs [Lit ''bliptag'', Opt (Lit ''-''), Plus (Cls digits)]))"

text \<open>\<^verbatim>\<open>\\(?P<whole_tag>blipuid\s+(?P<unique_id>[a-f0-9]+))\<close>\<close>

definition blipuid_re :: regex where
  "blipuid_re =
     Seq (Lit [bs])
       (Grp ''whole_tag''
          (seqs [Lit ''blipuid'', Plus (Cls whitespace),
                 Grp ''unique_id'' (Plus (Cls ''abcdef0123456789''))]))"

text \<open>The first \<^verbatim>\<open>if\<close> block of \<^verbatim>\<open>_find_blip_tags\<close>: the \<^verbatim>\<open>bliptag\<close> scan.\<close>

definition find_bliptag :: "string \<Rightarrow> results \<Rightarrow> error + results" where
  "find_bliptag text res =
     (if contains ''bliptag'' text then
        (case fold (\<lambda>m (r, found).
                      (r\<lparr>loose_strings := insert (match_group m ''whole_tag'') (loose_strings r)\<rparr>,
                       found + 1))
                   (finditer bliptag_re text) (res, 0::nat) of
           (res', found) \<Rightarrow> if found = 0 then Inr res' else add_observation ''OBS006'' res')
      else Inr res)"

text \<open>The second \<^verbatim>\<open>if\<close> block of \<^verbatim>\<open>_find_blip_tags\<close>: the \<^verbatim>\<open>blipuid\<close> scan.\<close>

definition find_blipuid :: "string \<Rightarrow> results \<Rightarrow> error + results" where
  "find_blipuid text res =
     (if contains ''blipuid'' text then
        (case fold (\<lambda>m (r, found).
                      (r\<lparr>loose_strings := insert (match_group m ''unique_id'') (loose_strings r),
                         strict_strings := insert (match_group m ''whole_tag'') (strict_strings r)\<rparr>,
                       found + 1))
                   (finditer blipuid_re text) (res, 0::nat) of
           (res', found) \<Rightarrow> Inr res')
      else Inr res)"

definition find_blip_tags :: "string \<Rightarrow> results \<Rightarrow> error + results" where
  "find_blip_tags text res =
     (case find_bliptag text res of Inl e \<Rightarrow> Inl e | Inr res' \<Rightarrow> find_blipuid text res')"

subsection \<open>\<^verbatim>\<open>_find_rsid_tags\<close>\<close>

text \<open>\<^verbatim>\<open>\\\*\\rsidtbl\s([^}]+)}\<close>\<close>

definition rsidtbl_re :: regex where
  "rsidtbl_re =
     seqs [Lit ([bs] @ ''*'' @ [bs] @ ''rsidtbl''), Cls whitespace, Grp ''1'' (Plus (NCls ''}'')),
           Lit ''}'']"

text \<open>\<^verbatim>\<open>(?P<whole_tag>\\rsid(?P<revision_id>\d+))\<close>\<close>

definition rsid_re :: regex where
  "rsid_re = Grp ''whole_tag'' (Seq (Lit ([bs] @ ''rsid'')) (Grp ''revision_id'' (Plus (Cls digits))))"

definition change_markers :: "string list" where
  "change_markers = [''insrsid'', ''rsidroot'', ''delrsid'', ''charrsid'', ''sectrsid'', ''pararsid'',
                     ''tblrsid'']"

text \<open>\<^verbatim>\<open>r"\\({})(\d+)".format(marker)\<close>\<close>

definition marker_re :: "string \<Rightarrow> regex" where
  "marker_re marker = seqs [Lit [bs], Grp ''1'' (Lit marker), Grp ''2'' (Plus (Cls digits))]"

text \<open>The body of the inner loop over the matches of one change marker.\<close>

definition check_marker :: "string list \<Rightarrow> rematch \<Rightarrow> results \<Rightarrow> error + results" where
  "check_marker revisions m res =
     (let control_word = match_group m ''1''; unique_id = match_group m ''2'' in
      case (if unique_id \<notin> set revisions then add_observation ''OBS003'' res else Inr res) of
        Inl e \<Rightarrow> Inl e
      | Inr res' \<Rightarrow>
          Inr (res'\<lparr>loose_strings := insert (control_word @ unique_id) (loose_strings res')\<rparr>))"

definition find_rsid_tags :: "string \<Rightarrow> results \<Rightarrow> error + results" where
  "find_rsid_tags text res =
     (case re_search rsidtbl_re text of
        None \<Rightarrow> Inr res
      | Some m \<Rightarrow>
          (case add_observation ''OBS007'' res of
             Inl e \<Rightarrow> Inl e
           | Inr res1 \<Rightarrow>
               (let raw_data = strip (match_group m ''1'');
                    res2 = res1\<lparr>strict_strings := insert raw_data (strict_strings res1)\<rparr>
                in case fold (\<lambda>m (revisions, r).
                                (revisions @ [match_group m ''revision_id''],
                                 r\<lparr>loose_strings := insert (match_group m ''whole_tag'') (loose_strings r)\<rparr>))
                             (finditer rsid_re raw_data) ([], res2) of
                     (revisions, res3) \<Rightarrow>
                       for_each (\<lambda>marker. for_each (check_marker revisions)
                                                    (finditer (marker_re marker) text))
                                change_markers res3)))"

subsection \<open>\<^verbatim>\<open>_parse_data\<close>, \<^verbatim>\<open>_parse_file\<close> and the constructor\<close>

definition parse_data :: "bytes \<Rightarrow> bool \<Rightarrow> results \<Rightarrow> error + results" where
  "parse_data data risky_items res =
     (case (if list_ex (\<lambda>x. x \<notin> set string_printable) data then add_observation ''OBS001'' res
            else Inr res) of
        Inl e \<Rightarrow> Inl e
      | Inr res1 \<Rightarrow>
          (let text = decode_ascii_ignore data in
           if take 4 text \<noteq> ''{'' @ [bs] @ ''rt'' then Inl ParsingException
           else
             (case (if take 2 (drop 4 text) \<noteq> ''f1'' then add_observation ''OBS002'' res1
                    else Inr res1) of
                Inl e \<Rightarrow> Inl e
              | Inr res2 \<Rightarrow>
                  (case find_rsid_tags text res2 of
                     Inl e \<Rightarrow> Inl e
                   | Inr res3 \<Rightarrow>
                       (case find_blip_tags text res3 of
                          Inl e \<Rightarrow> Inl e
                        | Inr res4 \<Rightarrow>
                            (case find_image_sizes text res4 of
                               Inl e \<Rightarrow> Inl e
                             | Inr res5 \<Rightarrow>
                                 if risky_items then find_information_group text res5
                                 else Inr res5))))))"

text \<open>
  \<^verbatim>\<open>_parse_file\<close>. The file system is a map from the names of the readable files to their
  contents; opening any other name raises.
\<close>

definition parse_file :: "(string \<rightharpoonup> bytes) \<Rightarrow> string \<Rightarrow> bool \<Rightarrow> results \<Rightarrow> error + results" where
  "parse_file fs filename risky_items res =
     (case fs filename of
        None \<Rightarrow> Inl FileNotFoundError
      | Some data \<Rightarrow> parse_data data risky_items res)"

text \<open>
  \<^verbatim>\<open>RtfAnalyser.__init__\<close>. The value returned is the \<^verbatim>\<open>results\<close> attribute of the object
  constructed; when the constructor raises there is no object. \<^verbatim>\<open>filename\<close> is \<^verbatim>\<open>None\<close> or
  a string, which is true when not empty.
\<close>

definition RtfAnalyser :: "(string \<rightharpoonup> bytes) \<Rightarrow> string option \<Rightarrow> pyobj \<Rightarrow> bool \<Rightarrow> error + results" where
  "RtfAnalyser fs filename data risky_items =
     (let res = \<lparr>loose_strings = {}, strict_strings = {}, observations = []\<rparr>;
          from_data =
            (if truthy data then
               (case data of PyBytes b \<Rightarrow> parse_data b risky_items res | _ \<Rightarrow> Inl TypeError)
             else Inr res)
      in if filename = None \<and> data = PyNone then Inl ValueError
         else (case filename of
                 None \<Rightarrow> from_data
               | Some f \<Rightarrow> if f \<noteq> [] then parse_file fs f risky_items res else from_data))"

section \<open>Vocabulary of the properties\<close>

text \<open>
  The definitions of this section are not part of \<^verbatim>\<open>core.py\<close>. The first group names what an
  extractor adds to the results, in terms of the matches of its patterns; the second says,
  position by position of the text and without patterns, what these matches are. Each is
  related to the analyser of the previous section by a lemma of the next one. The documents
  named \<open>DOC_\<close>\<dots> are those of the repository's tests and some more of the same kind.

  \<open>add_findings\<close> adds strings and observations to the results. For each extractor, the
  definitions ending in \<open>_loose\<close>, \<open>_strict\<close> and \<open>_obs\<close> are the loose strings, the strict
  strings and the observations it adds.
\<close>

definition add_findings :: "results \<Rightarrow> string set \<Rightarrow> string set \<Rightarrow> string list \<Rightarrow> results" where
  "add_findings res ls ss os =
     res\<lparr>loose_strings := ls \<union> loose_strings res, strict_strings := ss \<union> strict_strings res,
         observations := observations res @ os\<rparr>"

definition marker_matches :: "string \<Rightarrow> rematch list" where
  "marker_matches text = concat (map (\<lambda>marker. finditer (marker_re marker) text) change_markers)"

definition rsid_loose :: "string \<Rightarrow> string set" where
  "rsid_loose text =
     (case re_search rsidtbl_re text of
        None \<Rightarrow> {}
      | Some m \<Rightarrow>
          (\<lambda>m. match_group m ''1'' @ match_group m ''2'') ` set (marker_matches text)
          \<union> (\<lambda>m. match_group m ''whole_tag'') ` set (finditer rsid_re (strip (match_group m ''1''))))"

definition rsid_strict :: "string \<Rightarrow> string set" where
  "rsid_strict text =
     (case re_search rsidtbl_re text of None \<Rightarrow> {} | Some m \<Rightarrow> {strip (match_group m ''1'')})"

definition rsid_obs :: "string \<Rightarrow> string list" where
  "rsid_obs text =
     (case re_search rsidtbl_re text of
        None \<Rightarrow> []
      | Some m \<Rightarrow>
          ''OBS007'' #
          map (\<lambda>m. ''OBS003'')
              (filter (\<lambda>k. match_group k ''2''
                             \<notin> set (map (\<lambda>m. match_group m ''revision_id'')
                                         (finditer rsid_re (strip (match_group m ''1'')))))
                      (marker_matches text)))"

definition blip_loose :: "string \<Rightarrow> string set" where
  "blip_loose text =
     (\<lambda>m. match_group m ''whole_tag'') ` set (finditer bliptag_re text)
     \<union> (\<lambda>m. match_group m ''unique_id'') ` set (finditer blipuid_re text)"

definition blip_strict :: "string \<Rightarrow> string set" where
  "blip_strict text = (\<lambda>m. match_group m ''whole_tag'') ` set (finditer blipuid_re text)"

definition blip_obs :: "string \<Rightarrow> string list" where
  "blip_obs text = (if finditer bliptag_re text = [] then [] else [''OBS006''])"

definition image_loose :: "string \<Rightarrow> string set" where
  "image_loose text = (\<lambda>m. strip (match_group m ''longest_match'')) ` set (finditer image_size_re text)"

definition image_obs :: "string \<Rightarrow> string list" where
  "image_obs text = (if finditer image_size_re text = [] then [] else [''OBS004''])"

definition info_loose :: "string \<Rightarrow> string set" where
  "info_loose text = (\<lambda>m. match_group m ''whole_tag'') ` set (finditer info_group_re text)"

definition info_obs :: "string \<Rightarrow> string list" where
  "info_obs text = (if finditer info_group_re text = [] then [] else [''OBS005''])"

text \<open>What \<^verbatim>\<open>_parse_data\<close> adds when the magic check passes.\<close>

definition rtf_magic :: string where
  "rtf_magic = ''{'' @ [bs] @ ''rt''"

definition analysis_loose :: "string \<Rightarrow> bool \<Rightarrow> string set" where
  "analysis_loose text risky_items =
     (if risky_items then info_loose text else {}) \<union> image_loose text \<union> blip_loose text
     \<union> rsid_loose text"

definition analysis_strict :: "string \<Rightarrow> string set" where
  "analysis_strict text = blip_strict text \<union> rsid_strict text"

definition analysis_obs :: "bytes \<Rightarrow> bool \<Rightarrow> string list" where
  "analysis_obs data risky_items =
     (let text = decode_ascii_ignore data in
      (if list_ex (\<lambda>x. x \<notin> set string_printable) data then [''OBS001''] else [])
      @ (if take 2 (drop 4 text) \<noteq> ''f1'' then [''OBS002''] else [])
      @ rsid_obs text @ blip_obs text @ image_obs text
      @ (if risky_items then info_obs text else []))"

text \<open>
  The three extractors that \<^verbatim>\<open>_parse_data\<close> always runs, in its order, and the four it runs
  when risky items are enabled.
\<close>

definition run_unconditional :: "string \<Rightarrow> results \<Rightarrow> error + results" where
  "run_unconditional text res =
     (case find_rsid_tags text res of
        Inl e \<Rightarrow> Inl e
      | Inr res3 \<Rightarrow>
          (case find_blip_tags text res3 of
             Inl e \<Rightarrow> Inl e
           | Inr res4 \<Rightarrow> find_image_sizes text res4))"

definition run_all_four :: "string \<Rightarrow> results \<Rightarrow> error + results" where
  "run_all_four text res =
     (case run_unconditional text res of
        Inl e \<Rightarrow> Inl e
      | Inr res5 \<Rightarrow> find_information_group text res5)"

definition empty_results :: results where
  "empty_results = \<lparr>loose_strings = {}, strict_strings = {}, observations = []\<rparr>"

definition DOC_MODIFIED_HEADER :: bytes where
  "DOC_MODIFIED_HEADER = ''{'' @ [bs] @ ''rtXY''"

definition DOC_NO_RISKY :: bytes where
  "DOC_NO_RISKY = ''{'' @ [bs] @ ''rtXY{'' @ [bs] @ ''author x}''"

definition DOC_BINARY :: bytes where
  "DOC_BINARY = ''{'' @ [bs] @ ''rtf1}'' @ [CHR 0x13, CHR 0x37]"

definition DOC_BINARY_MANY :: bytes where
  "DOC_BINARY_MANY = ''{'' @ [bs] @ ''rtf1}'' @ [CHR 0x13, CHR 0x00, CHR 0xFF, CHR 0x7F]"

definition DOC_PRINTABLE :: bytes where
  "DOC_PRINTABLE = ''{'' @ [bs] @ ''rtf1}'' @ [CHR 0x09, CHR 0x0A, CHR ''7'']"

text \<open>
  \<open>occurrences at s\<close> lists what the recogniser \<open>at\<close> finds at the positions of \<open>s\<close>, from left
  to right. \<open>marker_at marker\<close> recognises a backslash, the control word \<open>marker\<close> and one or
  more digits, and yields all the digits that follow the control word.
\<close>

fun occurrences :: "(string \<Rightarrow> 'a option) \<Rightarrow> string \<Rightarrow> 'a list" where
  "occurrences at [] = []"
| "occurrences at (x # xs) =
     (case at (x # xs) of None \<Rightarrow> [] | Some v \<Rightarrow> [v]) @ occurrences at xs"









definition DOC_INVALID_REVISION_TAG :: bytes where
  "DOC_INVALID_REVISION_TAG = ''{'' @ [bs] @ ''rtf1}{'' @ [bs] @ ''*'' @ [bs] @ ''rsidtbl '' @ [bs] @ ''rsid1234'' @ [bs] @ ''rsid5678}'' @ [bs] @ ''pard '' @ [bs] @ ''pararsid9012''"




text \<open>
  \<open>bliptag_at\<close> recognises a backslash, \<^verbatim>\<open>bliptag\<close>, an optional minus sign and one or more
  digits, and yields the control word with the sign and all the digits, without the
  backslash. \<open>blipuid_at\<close> recognises a backslash, \<^verbatim>\<open>blipuid\<close>, one or more whitespace
  characters and one or more of the characters \<^verbatim>\<open>a-f0-9\<close>, and yields the whitespace and the
  identifier.
\<close>

definition hexdigits :: "char list" where
  "hexdigits = ''abcdef0123456789''"

definition bliptag_at :: "string \<Rightarrow> string option" where
  "bliptag_at s =
     (case strip_prefix ([bs] @ ''bliptag'') s of
        None \<Rightarrow> None
      | Some t \<Rightarrow>
          (case strip_prefix ''-'' t of
             Some u \<Rightarrow>
               if takeWhile (\<lambda>c. c \<in> set digits) u = [] then None
               else Some (''bliptag-'' @ takeWhile (\<lambda>c. c \<in> set digits) u)
           | None \<Rightarrow>
               if takeWhile (\<lambda>c. c \<in> set digits) t = [] then None
               else Some (''bliptag'' @ takeWhile (\<lambda>c. c \<in> set digits) t)))"

definition blipuid_at :: "string \<Rightarrow> (string \<times> string) option" where
  "blipuid_at s =
     (case strip_prefix ([bs] @ ''blipuid'') s of
        None \<Rightarrow> None
      | Some t \<Rightarrow>
          if takeWhile (\<lambda>c. c \<in> set whitespace) t = [] then None
          else if takeWhile (\<lambda>c. c \<in> set hexdigits) (dropWhile (\<lambda>c. c \<in> set whitespace) t) = []
          then None
          else Some (takeWhile (\<lambda>c. c \<in> set whitespace) t,
                     takeWhile (\<lambda>c. c \<in> set hexdigits) (dropWhile (\<lambda>c. c \<in> set whitespace) t)))"

definition bliptags :: "string \<Rightarrow> string list" where
  "bliptags text = occurrences bliptag_at text"

definition blipuids :: "string \<Rightarrow> (string \<times> string) list" where
  "blipuids text = occurrences blipuid_at text"

definition DOC_BLIPTAG :: bytes where
  "DOC_BLIPTAG = ''{'' @ [bs] @ ''rtf1}'' @ [bs] @ ''bliptag-1234567890'' @ [bs] @ ''blipupi-111{'' @ [bs] @ ''*'' @ [bs] @ ''blipuid 0011223344556677889900aabbccddeeff}''"

definition DOC_BLIPS :: bytes where
  "DOC_BLIPS = ''{'' @ [bs] @ ''rtf1}'' @ [bs] @ ''bliptag-12'' @ [bs] @ ''bliptag34'' @ [bs] @ ''bliptag-x{'' @ [bs] @ ''*'' @ [bs] @ ''blipuid '' @ [CHR 0x09] @ ''00ff}'' @ [bs] @ ''blipuid zz'' @ [bs] @ ''blipuid 7''"

definition DOC_BLIPUID_ONLY :: bytes where
  "DOC_BLIPUID_ONLY = ''{'' @ [bs] @ ''rtf1}'' @ [bs] @ ''blipuid 00aa''"

text \<open>
  \<open>scan at s\<close> lists what the recogniser \<open>at\<close> finds in \<open>s\<close> from left to right when the search
  resumes where the last find ended: the first character of a find \<open>v\<close> is \<open>x\<close>, and its
  other \<open>length v - 1\<close> characters are dropped from \<open>xs\<close>.
\<close>

fun scan :: "(string \<Rightarrow> string option) \<Rightarrow> string \<Rightarrow> string list" where
  "scan at [] = []"
| "scan at (x # xs) =
     (case at (x # xs) of
        None \<Rightarrow> scan at xs
      | Some v \<Rightarrow> v # scan at (drop (length v - 1) xs))"

text \<open>
  \<open>size_unit\<close> recognises a backslash, one of the four tags, one or more digits and the
  whitespace after them; the tag is the first of the four, in the order of the pattern,
  that is followed by a digit. \<open>size_run\<close> is the longest sequence of units that follow one
  another from a position. \<open>size_value\<close> and \<open>size_unit_re\<close> are parts of the pattern of
  \<^verbatim>\<open>_find_image_sizes\<close>.
\<close>

definition image_tags :: "string list" where
  "image_tags = [''picw'', ''pich'', ''picwgoal'', ''pichgoal'']"

fun first_some :: "('a \<Rightarrow> 'b option) \<Rightarrow> 'a list \<Rightarrow> 'b option" where
  "first_some f [] = None"
| "first_some f (x # xs) = (case f x of None \<Rightarrow> first_some f xs | Some y \<Rightarrow> Some y)"

definition tag_unit :: "string \<Rightarrow> string \<Rightarrow> string option" where
  "tag_unit s tag =
     (case strip_prefix tag s of
        None \<Rightarrow> None
      | Some t \<Rightarrow>
          if takeWhile (\<lambda>c. c \<in> set digits) t = [] then None
          else Some (tag @ takeWhile (\<lambda>c. c \<in> set digits) t
                     @ takeWhile (\<lambda>c. c \<in> set whitespace) (dropWhile (\<lambda>c. c \<in> set digits) t)))"

definition size_unit :: "string \<Rightarrow> string option" where
  "size_unit s =
     (case s of
        [] \<Rightarrow> None
      | k # t \<Rightarrow> if k = bs then map_option (\<lambda>u. bs # u) (first_some (tag_unit t) image_tags) else None)"

fun size_run :: "string \<Rightarrow> string" where
  "size_run [] = []"
| "size_run (x # xs) =
     (case size_unit (x # xs) of
        None \<Rightarrow> []
      | Some u \<Rightarrow> u @ size_run (drop (length u - 1) xs))"

definition size_run_at :: "string \<Rightarrow> string option" where
  "size_run_at s = (case size_unit s of None \<Rightarrow> None | Some u \<Rightarrow> Some (size_run s))"

definition size_runs :: "string \<Rightarrow> string list" where
  "size_runs text = scan size_run_at text"

definition size_value :: regex where
  "size_value = Seq (Plus (Cls digits)) (Star (Cls whitespace))"

definition size_unit_re :: regex where
  "size_unit_re =
     seqs [Lit [bs], alts [Lit ''picw'', Lit ''pich'', Lit ''picwgoal'', Lit ''pichgoal''],
           Plus (Cls digits), Star (Cls whitespace)]"

definition DOC_PICTURE :: bytes where
  "DOC_PICTURE = ''{'' @ [bs] @ ''rtf1}{'' @ [bs] @ ''pict{'' @ [bs] @ ''*'' @ [bs] @ ''picprop}'' @ [bs] @ ''wmetafile8'' @ [bs] @ ''picw10'' @ [bs] @ ''pich10'' @ [bs] @ ''picwgoal10'' @ [bs] @ ''pichgoal10 0011}''"

definition DOC_TWO_RUNS :: bytes where
  "DOC_TWO_RUNS = ''{'' @ [bs] @ ''rtf1}'' @ [bs] @ ''picw10 '' @ [bs] @ ''pich20  x'' @ [bs] @ ''picwgoal5'' @ [bs] @ ''pichgoal6'' @ [CHR 0x0A] @ ''}'' @ [bs] @ ''picw''"

definition DOC_NO_SIZES :: bytes where
  "DOC_NO_SIZES = ''{'' @ [bs] @ ''rtf1}'' @ [bs] @ ''picw '' @ [bs] @ ''pichgoal''"

text \<open>\<^verbatim>\<open>s.rstrip()\<close>: trailing whitespace removed.\<close>

definition rstrip :: "string \<Rightarrow> string" where
  "rstrip s = rev (dropWhile (\<lambda>c. c \<in> set whitespace) (rev s))"








section \<open>Properties\<close>

lemma strip_prefix_Some_iff: "strip_prefix w s = Some t \<longleftrightarrow> s = w @ t"
  by (induction w s rule: strip_prefix.induct) auto

lemma strip_prefix_Some_iff2: "Some t = strip_prefix w s \<longleftrightarrow> s = w @ t"
  using strip_prefix_Some_iff[of w s t] by auto

lemma strip_prefix_append [simp]: "strip_prefix w (w @ t) = Some t"
  by (simp add: strip_prefix_Some_iff)

lemma rmatch_sound: "(m, t, c) \<in> set (rmatch r s) \<Longrightarrow> s = m @ t"
proof (induction r s arbitrary: m t c rule: rmatch.induct)
  case (1 w s)
  then show ?case by (cases "strip_prefix w s") (auto simp: strip_prefix_Some_iff)
next
  case (2 cs s)
  then show ?case by (auto split: list.splits if_splits)
next
  case (3 cs s)
  then show ?case by (auto split: list.splits if_splits)
next
  case (4 r1 r2 s)
  from "4.prems" obtain x y where
    a: "x \<in> set (rmatch r1 s)" and b: "y \<in> set (rmatch r2 (fst (snd x)))"
    and m: "m = fst x @ fst y" and t: "t = fst (snd y)" by auto
  from "4.IH"(1)[of "fst x" "fst (snd x)" "snd (snd x)"] a have "s = fst x @ fst (snd x)" by simp
  moreover from "4.IH"(2)[of x "fst y" "fst (snd y)" "snd (snd y)"] a b
  have "fst (snd x) = fst y @ fst (snd y)" by simp
  ultimately show ?case using m t by simp
next
  case (5 r1 r2 s)
  then show ?case by auto
next
  case (6 r s)
  show ?case
  proof (cases "(m, t, c) = ([], s, [])")
    case True
    then show ?thesis by simp
  next
    case False
    with "6.prems" have "(m, t, c) \<in> set (concat (map (\<lambda>m1. if length (fst (snd m1)) < length s
                        then map (\<lambda>m2. (fst m1 @ fst m2, fst (snd m2), snd (snd m2) @ snd (snd m1)))
                                 (rmatch (Star r) (fst (snd m1)))
                        else []) (rmatch r s)))"
      unfolding rmatch.simps(6)[of r s] by auto
    then obtain x y where
      a: "x \<in> set (rmatch r s)" and l: "length (fst (snd x)) < length s"
      and b: "y \<in> set (rmatch (Star r) (fst (snd x)))"
      and m: "m = fst x @ fst y" and t: "t = fst (snd y)"
      by (auto split: if_splits)
    from "6.IH"(1)[of "fst x" "fst (snd x)" "snd (snd x)"] a have "s = fst x @ fst (snd x)" by simp
    moreover from "6.IH"(2)[of x "fst y" "fst (snd y)" "snd (snd y)"] a b l
    have "fst (snd x) = fst y @ fst (snd y)" by simp
    ultimately show ?thesis using m t by simp
  qed
next
  case (7 n r s)
  then show ?case by auto
qed

lemma rmatch_Star_nonempty: "rmatch (Star r) s \<noteq> []"
  by (subst rmatch.simps(6)) simp

lemma add_observation_known:
  "reference \<in> set [''OBS001'', ''OBS002'', ''OBS003'', ''OBS004'', ''OBS005'', ''OBS006'', ''OBS007'']
   \<Longrightarrow> add_observation reference res = Inr (res\<lparr>observations := observations res @ [reference]\<rparr>)"
  by (auto simp: add_observation_def OBSERVATIONS_def)

lemma fold_loose:
  "fold (\<lambda>m (r, found). (r\<lparr>loose_strings := insert (f m) (loose_strings r)\<rparr>, found + 1)) ms (res, n)
   = (res\<lparr>loose_strings := f ` set ms \<union> loose_strings res\<rparr>, n + length ms)"
  by (induction ms arbitrary: res n) auto

lemma fold_loose_strict:
  "fold (\<lambda>m (r, found). (r\<lparr>loose_strings := insert (f m) (loose_strings r),
                                 strict_strings := insert (g m) (strict_strings r)\<rparr>, found + 1)) ms (res, n)
   = (res\<lparr>loose_strings := f ` set ms \<union> loose_strings res,
           strict_strings := g ` set ms \<union> strict_strings res\<rparr>, n + length ms)"
  by (induction ms arbitrary: res n) auto

lemma fold_revisions:
  "fold (\<lambda>m (revisions, r). (revisions @ [g m], r\<lparr>loose_strings := insert (f m) (loose_strings r)\<rparr>))
        ms (revs, res)
   = (revs @ map g ms, res\<lparr>loose_strings := f ` set ms \<union> loose_strings res\<rparr>)"
  by (induction ms arbitrary: res revs) auto

lemma find_image_sizes_eq:
  "find_image_sizes text res =
     Inr (res\<lparr>loose_strings := (\<lambda>m. strip (match_group m ''longest_match'')) ` set (finditer image_size_re text)
                                  \<union> loose_strings res,
              observations := observations res
                              @ (if finditer image_size_re text = [] then [] else [''OBS004''])\<rparr>)"
  unfolding find_image_sizes_def fold_loose by (simp add: add_observation_known)

lemma find_information_group_eq:
  "find_information_group text res =
     Inr (res\<lparr>loose_strings := (\<lambda>m. match_group m ''whole_tag'') ` set (finditer info_group_re text)
                                  \<union> loose_strings res,
              observations := observations res
                              @ (if finditer info_group_re text = [] then [] else [''OBS005''])\<rparr>)"
  unfolding find_information_group_def fold_loose by (simp add: add_observation_known)

lemma check_marker_eq:
  "check_marker revisions m res =
     Inr (res\<lparr>loose_strings := insert (match_group m ''1'' @ match_group m ''2'') (loose_strings res),
              observations := observations res
                              @ (if match_group m ''2'' \<notin> set revisions then [''OBS003''] else [])\<rparr>)"
  by (simp add: check_marker_def add_observation_known)

lemma for_each_check_marker:
  "for_each (check_marker revisions) ms res =
     Inr (res\<lparr>loose_strings := (\<lambda>m. match_group m ''1'' @ match_group m ''2'') ` set ms \<union> loose_strings res,
              observations := observations res
                              @ map (\<lambda>m. ''OBS003'') (filter (\<lambda>m. match_group m ''2'' \<notin> set revisions) ms)\<rparr>)"
  by (induction ms arbitrary: res) (auto simp: check_marker_eq)

lemma for_each_markers:
  "for_each (\<lambda>marker. for_each (check_marker revisions) (F marker)) mks res =
     Inr (res\<lparr>loose_strings := (\<lambda>m. match_group m ''1'' @ match_group m ''2'') ` set (concat (map F mks))
                                  \<union> loose_strings res,
              observations := observations res
                              @ map (\<lambda>m. ''OBS003'')
                                    (filter (\<lambda>m. match_group m ''2'' \<notin> set revisions) (concat (map F mks)))\<rparr>)"
  by (induction mks arbitrary: res) (auto simp: for_each_check_marker image_Un Un_ac)

lemma add_findings_twice:
  "add_findings (add_findings res ls ss os) ls' ss' os' = add_findings res (ls' \<union> ls) (ss' \<union> ss) (os @ os')"
  by (simp add: add_findings_def Un_assoc)

lemma add_findings_fields [simp]:
  "loose_strings (add_findings res ls ss os) = ls \<union> loose_strings res"
  "strict_strings (add_findings res ls ss os) = ss \<union> strict_strings res"
  "observations (add_findings res ls ss os) = observations res @ os"
  by (simp_all add: add_findings_def)

lemma add_findings_empty [simp]: "add_findings res {} {} [] = res"
  by (simp add: add_findings_def)

lemma find_image_sizes_summary:
  "find_image_sizes text res = Inr (add_findings res (image_loose text) {} (image_obs text))"
  by (simp add: find_image_sizes_eq add_findings_def image_loose_def image_obs_def)

lemma find_information_group_summary:
  "find_information_group text res = Inr (add_findings res (info_loose text) {} (info_obs text))"
  by (simp add: find_information_group_eq add_findings_def info_loose_def info_obs_def)

lemma find_rsid_tags_summary:
  "find_rsid_tags text res = Inr (add_findings res (rsid_loose text) (rsid_strict text) (rsid_obs text))"
proof (cases "re_search rsidtbl_re text")
  case None
  then show ?thesis
    by (simp add: find_rsid_tags_def rsid_loose_def rsid_strict_def rsid_obs_def)
next
  case (Some m)
  then show ?thesis
    unfolding find_rsid_tags_def rsid_loose_def rsid_strict_def rsid_obs_def Let_def
      fold_revisions marker_matches_def
    by (simp add: add_observation_known for_each_markers add_findings_def Un_ac)
qed

lemma contains_iff: "contains sub s \<longleftrightarrow> (\<exists>p t. s = p @ sub @ t)"
proof (induction s)
  case Nil
  then show ?case by auto
next
  case (Cons x xs)
  show ?case
  proof (cases "strip_prefix sub (x # xs)")
    case (Some t)
    then have "x # xs = [] @ sub @ t" by (simp add: strip_prefix_Some_iff)
    then have "\<exists>p t. x # xs = p @ sub @ t" by blast
    moreover have "contains sub (x # xs)" using Some by simp
    ultimately show ?thesis by simp
  next
    case None
    have "(\<exists>p t. x # xs = p @ sub @ t) \<longleftrightarrow> (\<exists>p t. xs = p @ sub @ t)"
    proof
      assume "\<exists>p t. x # xs = p @ sub @ t"
      then obtain p t where e: "x # xs = p @ sub @ t" by blast
      show "\<exists>p t. xs = p @ sub @ t"
      proof (cases p)
        case Nil
        with e have "strip_prefix sub (x # xs) = Some t" by (simp add: strip_prefix_Some_iff)
        with None show ?thesis by simp
      next
        case (Cons a p')
        with e show ?thesis by auto
      qed
    next
      assume "\<exists>p t. xs = p @ sub @ t"
      then obtain p t where "xs = p @ sub @ t" by blast
      then have "x # xs = (x # p) @ sub @ t" by simp
      then show "\<exists>p t. x # xs = p @ sub @ t" by blast
    qed
    with None Cons show ?thesis by simp
  qed
qed

lemma finditer_elem:
  "mc \<in> set (finditer r s) \<Longrightarrow>
   \<exists>p t x ms. s = p @ t \<and> rmatch r t = x # ms \<and> mc = (fst x, snd (snd x))"
proof (induction r s rule: finditer.induct)
  case (1 r)
  then show ?case by (cases "rmatch r []") auto
next
  case (2 r x xs)
  show ?case
  proof (cases "rmatch r (x # xs)")
    case Nil
    with "2.prems" have "mc \<in> set (finditer r xs)" by simp
    from "2.IH"(1)[OF Nil this] obtain p t y ms where
      e: "xs = p @ t" "rmatch r t = y # ms" "mc = (fst y, snd (snd y))" by blast
    from e(1) have "x # xs = (x # p) @ t" by simp
    with e(2,3) show ?thesis by blast
  next
    case (Cons m ms)
    show ?thesis
    proof (cases "mc = (fst m, snd (snd m))")
      case True
      have "x # xs = [] @ (x # xs)" by simp
      with Cons True show ?thesis by blast
    next
      case neq: False
      let ?t = "fst (snd m)"
      have s: "x # xs = fst m @ ?t"
        using rmatch_sound[of "fst m" ?t "snd (snd m)" r "x # xs"] Cons by simp
      show ?thesis
      proof (cases "length ?t < length (x # xs)")
        case True
        with "2.prems" Cons neq have "mc \<in> set (finditer r ?t)" by simp
        from "2.IH"(2)[OF Cons True this] obtain p t y ms' where
          e: "?t = p @ t" "rmatch r t = y # ms'" "mc = (fst y, snd (snd y))" by blast
        from s e(1) have "x # xs = (fst m @ p) @ t" by simp
        with e(2,3) show ?thesis by blast
      next
        case False
        with "2.prems" Cons neq have "mc \<in> set (finditer r xs)" by simp
        from "2.IH"(3)[OF Cons False this] obtain p t y ms' where
          e: "xs = p @ t" "rmatch r t = y # ms'" "mc = (fst y, snd (snd y))" by blast
        from e(1) have "x # xs = (x # p) @ t" by simp
        with e(2,3) show ?thesis by blast
      qed
    qed
  qed
qed

lemma rmatch_bliptag_prefix:
  "rmatch bliptag_re t \<noteq> [] \<Longrightarrow> \<exists>t'. t = [bs] @ ''bliptag'' @ t'"
  by (auto simp: bliptag_re_def strip_prefix_Some_iff strip_prefix_Some_iff2 split: option.splits)

lemma rmatch_blipuid_prefix:
  "rmatch blipuid_re t \<noteq> [] \<Longrightarrow> \<exists>t'. t = [bs] @ ''blipuid'' @ t'"
  by (auto simp: blipuid_re_def strip_prefix_Some_iff strip_prefix_Some_iff2 split: option.splits)

lemma no_bliptag: "\<not> contains ''bliptag'' text \<Longrightarrow> finditer bliptag_re text = []"
proof (rule ccontr)
  assume n: "\<not> contains ''bliptag'' text" and "finditer bliptag_re text \<noteq> []"
  then obtain mc where "mc \<in> set (finditer bliptag_re text)" by (cases "finditer bliptag_re text") auto
  from finditer_elem[OF this] obtain p t where "text = p @ t" "rmatch bliptag_re t \<noteq> []" by auto
  with rmatch_bliptag_prefix[of t] obtain t' where "text = (p @ [bs]) @ ''bliptag'' @ t'" by auto
  then have "contains ''bliptag'' text" unfolding contains_iff by blast
  with n show False by simp
qed

lemma no_blipuid: "\<not> contains ''blipuid'' text \<Longrightarrow> finditer blipuid_re text = []"
proof (rule ccontr)
  assume n: "\<not> contains ''blipuid'' text" and "finditer blipuid_re text \<noteq> []"
  then obtain mc where "mc \<in> set (finditer blipuid_re text)" by (cases "finditer blipuid_re text") auto
  from finditer_elem[OF this] obtain p t where "text = p @ t" "rmatch blipuid_re t \<noteq> []" by auto
  with rmatch_blipuid_prefix[of t] obtain t' where "text = (p @ [bs]) @ ''blipuid'' @ t'" by auto
  then have "contains ''blipuid'' text" unfolding contains_iff by blast
  with n show False by simp
qed

lemma find_bliptag_summary:
  "find_bliptag text res =
     Inr (add_findings res ((\<lambda>m. match_group m ''whole_tag'') ` set (finditer bliptag_re text)) {}
                 (blip_obs text))"
proof (cases "contains ''bliptag'' text")
  case True
  then show ?thesis
    unfolding find_bliptag_def fold_loose blip_obs_def
    by (simp add: add_observation_known add_findings_def)
next
  case False
  then show ?thesis
    by (simp add: find_bliptag_def no_bliptag blip_obs_def)
qed

lemma find_blipuid_summary:
  "find_blipuid text res =
     Inr (add_findings res ((\<lambda>m. match_group m ''unique_id'') ` set (finditer blipuid_re text))
                 ((\<lambda>m. match_group m ''whole_tag'') ` set (finditer blipuid_re text)) [])"
proof (cases "contains ''blipuid'' text")
  case True
  then show ?thesis
    unfolding find_blipuid_def fold_loose_strict
    by (simp add: add_findings_def)
next
  case False
  then show ?thesis
    by (simp add: find_blipuid_def no_blipuid)
qed

lemma find_blip_tags_summary:
  "find_blip_tags text res = Inr (add_findings res (blip_loose text) (blip_strict text) (blip_obs text))"
  by (simp add: find_blip_tags_def find_bliptag_summary find_blipuid_summary add_findings_twice
      blip_loose_def blip_strict_def Un_commute)

lemma parse_data_eq:
  "parse_data data risky_items res =
     (if take 4 (decode_ascii_ignore data) \<noteq> rtf_magic then Inl ParsingException
      else Inr (add_findings res (analysis_loose (decode_ascii_ignore data) risky_items)
                       (analysis_strict (decode_ascii_ignore data))
                       (analysis_obs data risky_items)))"
proof -
  have a1: "add_observation ''OBS001'' res = Inr (add_findings res {} {} [''OBS001''])"
    by (simp add: add_observation_known add_findings_def)
  have a2: "\<And>r. add_observation ''OBS002'' r = Inr (add_findings r {} {} [''OBS002''])"
    by (simp add: add_observation_known add_findings_def)
  show ?thesis
    unfolding parse_data_def Let_def a1 a2 find_rsid_tags_summary find_blip_tags_summary
      find_image_sizes_summary find_information_group_summary analysis_loose_def
      analysis_strict_def analysis_obs_def rtf_magic_def
    by (simp add: add_findings_twice Un_ac)
qed

lemma RtfAnalyser_bytes:
  "RtfAnalyser fs None (PyBytes data) risky_items =
     (if data = [] then Inr empty_results else parse_data data risky_items empty_results)"
  by (simp add: RtfAnalyser_def empty_results_def)

lemma RtfAnalyser_file:
  "f \<noteq> [] \<Longrightarrow> RtfAnalyser fs (Some f) data risky_items =
     (case fs f of None \<Rightarrow> Inl FileNotFoundError
      | Some b \<Rightarrow> parse_data b risky_items empty_results)"
  by (simp add: RtfAnalyser_def parse_file_def empty_results_def split: option.splits)

lemma count_list_0: "x \<notin> set xs \<Longrightarrow> count_list xs x = 0"
  by (induction xs) auto

lemma set_rsid_obs: "set (rsid_obs text) \<subseteq> {''OBS007'', ''OBS003''}"
  by (auto simp: rsid_obs_def split: option.splits)

lemma set_blip_obs: "set (blip_obs text) \<subseteq> {''OBS006''}"
  by (simp add: blip_obs_def)

lemma set_image_obs: "set (image_obs text) \<subseteq> {''OBS004''}"
  by (simp add: image_obs_def)

lemma set_info_obs: "set (info_obs text) \<subseteq> {''OBS005''}"
  by (simp add: info_obs_def)

lemma count_extractor_obs:
  assumes "ref \<notin> {''OBS003'', ''OBS004'', ''OBS005'', ''OBS006'', ''OBS007''}"
  shows "count_list (rsid_obs text) ref = 0" "count_list (blip_obs text) ref = 0"
    "count_list (image_obs text) ref = 0" "count_list (info_obs text) ref = 0"
  using assms set_rsid_obs[of "text"] set_blip_obs[of "text"] set_image_obs[of "text"]
    set_info_obs[of "text"]
  by (auto intro!: count_list_0)

lemma count_analysis_obs_001:
  "count_list (analysis_obs data risky_items) ''OBS001'' =
     (if list_ex (\<lambda>x. x \<notin> set string_printable) data then 1 else 0)"
  by (simp add: analysis_obs_def Let_def count_extractor_obs)

lemma count_analysis_obs_002:
  "count_list (analysis_obs data risky_items) ''OBS002'' =
     (if take 2 (drop 4 (decode_ascii_ignore data)) \<noteq> ''f1'' then 1 else 0)"
  by (simp add: analysis_obs_def Let_def count_extractor_obs)

subsection \<open>The printable-range check\<close>

lemma parse_data_obs001:
  assumes "parse_data data risky_items empty_results = Inr r"
  shows "count_list (observations r) ''OBS001'' =
           (if list_ex (\<lambda>x. x \<notin> set string_printable) data then 1 else 0)"
proof -
  from assms have "observations r = analysis_obs data risky_items"
    by (auto simp: parse_data_eq empty_results_def split: if_splits)
  then show ?thesis by (simp only: count_analysis_obs_001)
qed

text \<open>
  Claim C8. The input of the analyser is a byte string \<open>data\<close>, handed over either directly
  as the \<^verbatim>\<open>data\<close> argument (with no file name, or with the empty file name, which is false)
  or as the content of the file named by a file name that is not empty. On either route,
  whenever the constructor returns a result, \<^verbatim>\<open>OBS001\<close> occurs in the observations of that
  result exactly once if some byte of the input is not in \<^verbatim>\<open>string.printable\<close>, however many
  such bytes there are, and does not occur at all if every byte is in it.
\<close>

theorem obs001_exactly_once:
  assumes "RtfAnalyser fs filename d risky_items = Inr r"
    and "(filename = None \<or> filename = Some []) \<and> d = PyBytes data
         \<or> (\<exists>f. filename = Some f \<and> f \<noteq> [] \<and> fs f = Some data)"
  shows "count_list (observations r) ''OBS001'' =
           (if list_ex (\<lambda>x. x \<notin> set string_printable) data then 1 else 0)"
proof -
  from assms(2) consider
    (buffer) "filename = None \<or> filename = Some []" "d = PyBytes data"
  | (path) f where "filename = Some f" "f \<noteq> []" "fs f = Some data"
    by blast
  then show ?thesis
  proof cases
  case buffer
  then have eq: "RtfAnalyser fs filename d risky_items =
      (if data = [] then Inr empty_results else parse_data data risky_items empty_results)"
    by (auto simp: RtfAnalyser_def empty_results_def)
  show ?thesis
  proof (cases "data = []")
    case True
    with assms(1) eq have "r = empty_results" by simp
    with True show ?thesis by (simp add: empty_results_def)
  next
    case False
    with assms(1) eq have "parse_data data risky_items empty_results = Inr r" by simp
    then show ?thesis by (rule parse_data_obs001)
  qed
next
  case path
  with assms(1) have "parse_data data risky_items empty_results = Inr r"
    by (simp add: RtfAnalyser_file)
  then show ?thesis by (rule parse_data_obs001)
  qed
qed

text \<open>
  \<^verbatim>\<open>DOC_BINARY\<close> is the document of the repository's test of this observation; it has one
  byte outside \<^verbatim>\<open>string.printable\<close>. \<^verbatim>\<open>DOC_BINARY_MANY\<close> has four of them, one of which the
  decoding drops, and \<^verbatim>\<open>DOC_PRINTABLE\<close> none.
\<close>

lemma DOC_BINARY_MANY_result:
  "RtfAnalyser Map.empty None (PyBytes DOC_BINARY_MANY) True =
     Inr \<lparr>loose_strings = {}, strict_strings = {}, observations = [''OBS001'']\<rparr>"
  by code_simp

lemma DOC_BINARY_file_result:
  "RtfAnalyser [''binary.rtf'' \<mapsto> DOC_BINARY_MANY] (Some ''binary.rtf'') PyNone False =
     Inr \<lparr>loose_strings = {}, strict_strings = {}, observations = [''OBS001'']\<rparr>"
  by code_simp

lemma DOC_BINARY_result:
  "RtfAnalyser Map.empty (Some []) (PyBytes DOC_BINARY) True =
     Inr \<lparr>loose_strings = {}, strict_strings = {}, observations = [''OBS001'']\<rparr>"
  by code_simp

lemma DOC_PRINTABLE_result:
  "RtfAnalyser [''plain.rtf'' \<mapsto> DOC_PRINTABLE] (Some ''plain.rtf'') PyNone True =
     Inr \<lparr>loose_strings = {}, strict_strings = {}, observations = []\<rparr>"
  by code_simp

theorem obs001_exactly_once_witness:
  "length (filter (\<lambda>x. x \<notin> set string_printable) DOC_BINARY_MANY) = 4
   \<and> RtfAnalyser Map.empty None (PyBytes DOC_BINARY_MANY) True =
       Inr \<lparr>loose_strings = {}, strict_strings = {}, observations = [''OBS001'']\<rparr>
   \<and> RtfAnalyser [''binary.rtf'' \<mapsto> DOC_BINARY_MANY] (Some ''binary.rtf'') PyNone False =
       Inr \<lparr>loose_strings = {}, strict_strings = {}, observations = [''OBS001'']\<rparr>
   \<and> count_list [''OBS001''] ''OBS001'' = 1
   \<and> length (filter (\<lambda>x. x \<notin> set string_printable) DOC_BINARY) = 1
   \<and> RtfAnalyser Map.empty (Some []) (PyBytes DOC_BINARY) True =
       Inr \<lparr>loose_strings = {}, strict_strings = {}, observations = [''OBS001'']\<rparr>
   \<and> \<not> list_ex (\<lambda>x. x \<notin> set string_printable) DOC_PRINTABLE
   \<and> RtfAnalyser [''plain.rtf'' \<mapsto> DOC_PRINTABLE] (Some ''plain.rtf'') PyNone True =
       Inr \<lparr>loose_strings = {}, strict_strings = {}, observations = []\<rparr>
   \<and> count_list [] ''OBS001'' = 0"
proof -
  have n4: "length (filter (\<lambda>x. x \<notin> set string_printable) DOC_BINARY_MANY) = 4" by code_simp
  have n1: "length (filter (\<lambda>x. x \<notin> set string_printable) DOC_BINARY) = 1" by code_simp
  have p4: "list_ex (\<lambda>x. x \<notin> set string_printable) DOC_BINARY_MANY" by code_simp
  have p1: "list_ex (\<lambda>x. x \<notin> set string_printable) DOC_BINARY" by code_simp
  have p0: "\<not> list_ex (\<lambda>x. x \<notin> set string_printable) DOC_PRINTABLE" by code_simp
  have a: "count_list [''OBS001''] ''OBS001'' = 1"
    using obs001_exactly_once[OF DOC_BINARY_MANY_result, of DOC_BINARY_MANY] p4 by simp
  have b: "count_list [''OBS001''] ''OBS001'' = 1"
    using obs001_exactly_once[OF DOC_BINARY_file_result, of DOC_BINARY_MANY] p4 by simp
  have c: "count_list [''OBS001''] ''OBS001'' = 1"
    using obs001_exactly_once[OF DOC_BINARY_result, of DOC_BINARY] p1 by simp
  have d: "count_list [] ''OBS001'' = 0"
    using obs001_exactly_once[OF DOC_PRINTABLE_result, of DOC_PRINTABLE] p0 by simp
  from n4 n1 p0 a d DOC_BINARY_MANY_result DOC_BINARY_file_result DOC_BINARY_result
    DOC_PRINTABLE_result
  show ?thesis by simp
qed

subsection \<open>The constructor\<close>

text \<open>
  Claim C10. Constructed with no file name and the empty byte string, the analyser raises
  nothing and parses nothing: the three result fields are empty, although the decoded text,
  which is empty, does not begin with the RTF magic.
\<close>

theorem empty_data_skips_parsing:
  "RtfAnalyser fs None (PyBytes []) risky_items =
     Inr \<lparr>loose_strings = {}, strict_strings = {}, observations = []\<rparr>
   \<and> take 4 (decode_ascii_ignore []) \<noteq> ''{'' @ [bs] @ ''rt''"
  by (simp add: RtfAnalyser_def decode_ascii_ignore_def)

text \<open>
  The magic check itself rejects every input whose decoded text does not begin with
  \<^verbatim>\<open>{\rt\<close>; from the constructor it is reached for every non-empty byte string and for every
  readable file.
\<close>

lemma magic_check_rejects:
  assumes "take 4 (decode_ascii_ignore data) \<noteq> ''{'' @ [bs] @ ''rt''"
  shows "parse_data data risky_items res = Inl ParsingException"
  using assms by (simp add: parse_data_eq rtf_magic_def)

lemma magic_check_nonempty_data:
  assumes "data \<noteq> []" and "take 4 (decode_ascii_ignore data) \<noteq> ''{'' @ [bs] @ ''rt''"
  shows "RtfAnalyser fs None (PyBytes data) risky_items = Inl ParsingException"
  using assms by (simp add: RtfAnalyser_bytes magic_check_rejects)

lemma magic_check_file:
  assumes "f \<noteq> []" and "fs f = Some data"
    and "take 4 (decode_ascii_ignore data) \<noteq> ''{'' @ [bs] @ ''rt''"
  shows "RtfAnalyser fs (Some f) d risky_items = Inl ParsingException"
  using assms by (simp add: RtfAnalyser_file magic_check_rejects)

text \<open>
  Claim C1 says that every byte input whose decoded text does not begin with \<^verbatim>\<open>{\rt\<close> fails
  with \<^verbatim>\<open>ParsingException\<close>. The empty byte string is such an input, and the constructor
  returns an analyser with empty results for it, because \<^verbatim>\<open>elif data:\<close> tests the truth value
  of \<^verbatim>\<open>data\<close> where the check before it tests \<^verbatim>\<open>data is None\<close>. The same empty content read
  from a file is rejected.
\<close>

theorem empty_data_not_rejected:
  "take 4 (decode_ascii_ignore []) \<noteq> ''{'' @ [bs] @ ''rt''
   \<and> RtfAnalyser fs None (PyBytes []) risky_items =
       Inr \<lparr>loose_strings = {}, strict_strings = {}, observations = []\<rparr>
   \<and> RtfAnalyser [''empty.rtf'' \<mapsto> []] (Some ''empty.rtf'') PyNone risky_items = Inl ParsingException"
  by (simp add: RtfAnalyser_def decode_ascii_ignore_def parse_file_def parse_data_eq rtf_magic_def)

text \<open>
  With neither argument the constructor raises \<^verbatim>\<open>ValueError\<close>, and a \<^verbatim>\<open>data\<close> argument that
  is true and not a \<^verbatim>\<open>bytes\<close> object raises \<^verbatim>\<open>TypeError\<close>.
\<close>

lemma no_arguments_ValueError: "RtfAnalyser fs None PyNone risky_items = Inl ValueError"
  by (simp add: RtfAnalyser_def)

lemma truthy_non_bytes_TypeError:
  assumes "truthy data" and "\<forall>b. data \<noteq> PyBytes b"
  shows "RtfAnalyser fs None data risky_items = Inl TypeError"
  using assms by (cases data) (simp_all add: RtfAnalyser_def)

text \<open>
  Claim C7 says that a \<^verbatim>\<open>data\<close> argument that is not a byte sequence fails with
  \<^verbatim>\<open>TypeError\<close>. The type check sits under \<^verbatim>\<open>elif data:\<close>, so the empty string, which is
  false, passes unchecked and the constructor returns an analyser with empty results; a
  non-empty string raises \<^verbatim>\<open>TypeError\<close>, and no argument at all raises \<^verbatim>\<open>ValueError\<close>.
\<close>

theorem empty_str_data_not_rejected:
  "RtfAnalyser fs None (PyStr []) risky_items =
     Inr \<lparr>loose_strings = {}, strict_strings = {}, observations = []\<rparr>
   \<and> RtfAnalyser fs None (PyStr ''{'') risky_items = Inl TypeError
   \<and> RtfAnalyser fs None PyNone risky_items = Inl ValueError"
  by (simp add: RtfAnalyser_def)

subsection \<open>The version marker\<close>

lemma run_unconditional_summary:
  "run_unconditional text res =
     Inr (add_findings res (image_loose text \<union> blip_loose text \<union> rsid_loose text)
            (blip_strict text \<union> rsid_strict text)
            (rsid_obs text @ blip_obs text @ image_obs text))"
  by (simp add: run_unconditional_def find_rsid_tags_summary find_blip_tags_summary
      find_image_sizes_summary add_findings_twice Un_ac)

lemma run_all_four_summary:
  "run_all_four text res =
     Inr (add_findings res (info_loose text \<union> image_loose text \<union> blip_loose text \<union> rsid_loose text)
            (blip_strict text \<union> rsid_strict text)
            (rsid_obs text @ blip_obs text @ image_obs text @ info_obs text))"
  by (simp add: run_all_four_def run_unconditional_summary find_information_group_summary
      add_findings_twice Un_ac)

text \<open>
  Claim C9, as amended. For every input that passes the magic check and whose characters 5
  and 6 are not \<^verbatim>\<open>f1\<close>, \<^verbatim>\<open>_parse_data\<close> adds \<^verbatim>\<open>OBS002\<close> once and completes without an error,
  and its result is that of the extractors run on the state holding that observation: all
  four when risky items are enabled, the three unconditional ones when they are not.
\<close>

theorem version_marker_is_soft:
  assumes "take 4 (decode_ascii_ignore data) = ''{'' @ [bs] @ ''rt''"
    and "take 2 (drop 4 (decode_ascii_ignore data)) \<noteq> ''f1''"
  shows "\<exists>res2 r. res2 = res\<lparr>observations := observations res
                            @ (if list_ex (\<lambda>x. x \<notin> set string_printable) data then [''OBS001''] else [])
                            @ [''OBS002'']\<rparr>
           \<and> parse_data data risky_items res = Inr r
           \<and> Inr r = (if risky_items then run_all_four (decode_ascii_ignore data) res2
                       else run_unconditional (decode_ascii_ignore data) res2)
           \<and> count_list (observations r) ''OBS002'' = count_list (observations res) ''OBS002'' + 1"
  using assms
  by (simp add: parse_data_eq rtf_magic_def run_all_four_summary run_unconditional_summary
      add_findings_def analysis_obs_def analysis_loose_def analysis_strict_def Let_def
      count_extractor_obs Un_ac)

lemma DOC_MODIFIED_HEADER_result:
  "parse_data DOC_MODIFIED_HEADER True empty_results =
     Inr \<lparr>loose_strings = {}, strict_strings = {}, observations = [''OBS002'']\<rparr>"
  by code_simp

theorem version_marker_is_soft_witness:
  "take 4 (decode_ascii_ignore DOC_MODIFIED_HEADER) = ''{'' @ [bs] @ ''rt''
   \<and> take 2 (drop 4 (decode_ascii_ignore DOC_MODIFIED_HEADER)) \<noteq> ''f1''
   \<and> parse_data DOC_MODIFIED_HEADER True empty_results =
       Inr \<lparr>loose_strings = {}, strict_strings = {}, observations = [''OBS002'']\<rparr>
   \<and> run_all_four (decode_ascii_ignore DOC_MODIFIED_HEADER)
        \<lparr>loose_strings = {}, strict_strings = {}, observations = [''OBS002'']\<rparr> =
       Inr \<lparr>loose_strings = {}, strict_strings = {}, observations = [''OBS002'']\<rparr>"
proof -
  have a: "take 4 (decode_ascii_ignore DOC_MODIFIED_HEADER) = ''{'' @ [bs] @ ''rt''" by code_simp
  have b: "take 2 (drop 4 (decode_ascii_ignore DOC_MODIFIED_HEADER)) \<noteq> ''f1''" by code_simp
  have c: "\<not> list_ex (\<lambda>x. x \<notin> set string_printable) DOC_MODIFIED_HEADER" by code_simp
  from version_marker_is_soft[OF a b, of empty_results True] c DOC_MODIFIED_HEADER_result a b
  show ?thesis by (simp add: empty_results_def)
qed

text \<open>
  Claim C9 as stated has all four extractors run. With risky items disabled the metadata
  extractor does not: on \<^verbatim>\<open>{\rtXY{\author x}\<close> the result of \<^verbatim>\<open>_parse_data\<close> holds \<^verbatim>\<open>OBS002\<close>
  alone, where the four extractors would have added \<^verbatim>\<open>OBS005\<close> and the author group.
\<close>

theorem version_marker_risky_gate_counterexample:
  "take 4 (decode_ascii_ignore DOC_NO_RISKY) = ''{'' @ [bs] @ ''rt''
   \<and> take 2 (drop 4 (decode_ascii_ignore DOC_NO_RISKY)) \<noteq> ''f1''
   \<and> parse_data DOC_NO_RISKY False empty_results =
       Inr \<lparr>loose_strings = {}, strict_strings = {}, observations = [''OBS002'']\<rparr>
   \<and> run_all_four (decode_ascii_ignore DOC_NO_RISKY)
        \<lparr>loose_strings = {}, strict_strings = {}, observations = [''OBS002'']\<rparr> =
       Inr \<lparr>loose_strings = {''{'' @ [bs] @ ''author x}''}, strict_strings = {},
            observations = [''OBS002'', ''OBS005'']\<rparr>"
  by code_simp

lemma rmatch_Star_Cls:
  "\<exists>ms. rmatch (Star (Cls cs)) s =
          (takeWhile (\<lambda>c. c \<in> set cs) s, dropWhile (\<lambda>c. c \<in> set cs) s, []) # ms"
proof (induction s)
  case Nil
  show ?case by (subst rmatch.simps(6)) simp
next
  case (Cons x xs)
  then obtain ms where ms: "rmatch (Star (Cls cs)) xs =
      (takeWhile (\<lambda>c. c \<in> set cs) xs, dropWhile (\<lambda>c. c \<in> set cs) xs, []) # ms" by blast
  show ?case by (subst rmatch.simps(6)) (simp add: ms)
qed


lemma rmatch_Plus_Cls_Nil:
  "takeWhile (\<lambda>c. c \<in> set cs) s = [] \<Longrightarrow> rmatch (Plus (Cls cs)) s = []"
  by (cases s) (auto simp: Plus_def split: if_splits)

lemma rmatch_Plus_Cls:
  assumes "takeWhile (\<lambda>c. c \<in> set cs) s \<noteq> []"
  shows "\<exists>ms. rmatch (Plus (Cls cs)) s =
          (takeWhile (\<lambda>c. c \<in> set cs) s, dropWhile (\<lambda>c. c \<in> set cs) s, []) # ms"
proof (cases s)
  case Nil
  with assms show ?thesis by simp
next
  case (Cons x xs)
  with assms have x: "x \<in> set cs" by (auto split: if_splits)
  obtain ms where "rmatch (Star (Cls cs)) xs =
      (takeWhile (\<lambda>c. c \<in> set cs) xs, dropWhile (\<lambda>c. c \<in> set cs) xs, []) # ms"
    using rmatch_Star_Cls[of cs xs] by blast
  with Cons x show ?thesis by (simp add: Plus_def)
qed



lemma finditer_skip: "rmatch r (x # xs) = [] \<Longrightarrow> finditer r (x # xs) = finditer r xs"
  by simp

lemma finditer_hit:
  assumes "rmatch r s = (m, t, c) # ms" and "m \<noteq> []"
  shows "finditer r s = (m, c) # finditer r t"
proof -
  have s: "s = m @ t" using rmatch_sound[of m t c r s] assms(1) by simp
  with assms(2) have "s \<noteq> []" by simp
  then obtain x xs where x: "s = x # xs" by (cases s) auto
  from s assms(2) have "length t < length s" by simp
  with assms(1) x show ?thesis by simp
qed

lemma re_search_skip: "rmatch r (x # xs) = [] \<Longrightarrow> re_search r (x # xs) = re_search r xs"
  by simp

lemma re_search_hit: "rmatch r s = (m, t, c) # ms \<Longrightarrow> re_search r s = Some (m, c)"
  by (cases s) simp_all

lemma occurrences_skip:
  assumes "\<And>s v. at s = Some v \<Longrightarrow> \<exists>t. s = bs # t" and "bs \<notin> set u"
  shows "occurrences at (u @ t) = occurrences at t"
  using assms(2)
proof (induction u)
  case Nil
  then show ?case by simp
next
  case (Cons a u)
  then have "at (a # u @ t) = None" using assms(1)[of "a # u @ t"] by (cases "at (a # u @ t)") auto
  with Cons show ?case by simp
qed

text \<open>
  A pattern whose first match at a position is what a recogniser finds there, and whose
  matches hold one backslash, the leading one: the scan reports every position at which the
  recogniser finds something.
\<close>

lemma finditer_occurrences:
  assumes none: "\<And>s. at s = None \<Longrightarrow> rmatch r s = []"
    and some: "\<And>s v. at s = Some v \<Longrightarrow> \<exists>t ms. rmatch r s = (bs # tok v, t, cf v) # ms"
    and nobs: "\<And>s v. at s = Some v \<Longrightarrow> bs \<notin> set (tok v)"
    and start: "\<And>s v. at s = Some v \<Longrightarrow> \<exists>t. s = bs # t"
  shows "finditer r s = map (\<lambda>v. (bs # tok v, cf v)) (occurrences at s)"
proof (induction "length s" arbitrary: s rule: less_induct)
  case less
  show ?case
  proof (cases s)
    case Nil
    have "at [] = None" using start[of "[]"] by (cases "at []") auto
    with Nil none[of "[]"] show ?thesis by simp
  next
    case (Cons x xs)
    show ?thesis
    proof (cases "at s")
      case None
      with none Cons have "finditer r s = finditer r xs" by simp
      also have "\<dots> = map (\<lambda>v. (bs # tok v, cf v)) (occurrences at xs)"
        using less[of xs] Cons by simp
      finally show ?thesis using None Cons by simp
    next
      case (Some v)
      from some[OF Some] obtain t ms where m: "rmatch r s = (bs # tok v, t, cf v) # ms" by blast
      have st: "s = (bs # tok v) @ t" using rmatch_sound[of "bs # tok v" t "cf v" r s] m by simp
      have "finditer r s = (bs # tok v, cf v) # finditer r t" using finditer_hit[OF m] by simp
      moreover have "finditer r t = map (\<lambda>v. (bs # tok v, cf v)) (occurrences at t)"
        using less[of t] st by simp
      moreover have "occurrences at xs = occurrences at t"
        using occurrences_skip[of at "tok v" t] start nobs[OF Some] st Cons by auto
      ultimately show ?thesis using Some Cons by simp
    qed
  qed
qed

lemma re_search_occurrences:
  assumes none: "\<And>s. at s = None \<Longrightarrow> rmatch r s = []"
    and some: "\<And>s v. at s = Some v \<Longrightarrow> \<exists>t ms. rmatch r s = (tok v, t, cf v) # ms"
    and start: "at [] = None"
  shows "re_search r s = (case occurrences at s of [] \<Rightarrow> None | v # _ \<Rightarrow> Some (tok v, cf v))"
proof (induction s)
  case Nil
  with none[of "[]"] start show ?case by simp
next
  case (Cons x xs)
  show ?case
  proof (cases "at (x # xs)")
    case None
    with none[of "x # xs"] Cons show ?thesis by simp
  next
    case (Some v)
    from some[OF Some] obtain t ms where "rmatch r (x # xs) = (tok v, t, cf v) # ms" by blast
    with Some show ?thesis by simp
  qed
qed

lemma strip_prefix_app:
  "strip_prefix (u @ w) s = (case strip_prefix u s of None \<Rightarrow> None | Some t \<Rightarrow> strip_prefix w t)"
  by (induction u s rule: strip_prefix.induct) auto

lemma strip_prefix_Cons:
  "strip_prefix (c # w) s =
     (case s of [] \<Rightarrow> None | x # xs \<Rightarrow> if c = x then strip_prefix w xs else None)"
  by (cases s) auto

lemma bs_not_digit: "bs \<notin> set digits"
  by (simp add: digits_def)









lemma concat_map_Nil: "(\<And>x. x \<in> set xs \<Longrightarrow> f x = []) \<Longrightarrow> concat (map f xs) = []"
  by (induction xs) auto
























lemma parse_data_result:
  assumes "parse_data data risky_items res = Inr r"
  shows "r = add_findings res (analysis_loose (decode_ascii_ignore data) risky_items)
               (analysis_strict (decode_ascii_ignore data)) (analysis_obs data risky_items)"
  using assms by (auto simp: parse_data_eq split: if_splits)




subsection \<open>The revision markers\<close>










lemma rmatch_Star_Cls_set:
  "(m, t, c) \<in> set (rmatch (Star (Cls cs)) s) \<Longrightarrow> set m \<subseteq> set cs"
proof (induction s arbitrary: m t c)
  case Nil
  then show ?case by (subst (asm) rmatch.simps(6)) simp
next
  case (Cons x xs)
  from Cons.prems have
    "(m, t, c) = ([], x # xs, []) \<or>
     (x \<in> set cs \<and> (\<exists>a c'. (a, t, c') \<in> set (rmatch (Star (Cls cs)) xs) \<and> m = x # a))"
    by (subst (asm) rmatch.simps(6)) (auto split: if_splits)
  then show ?case
  proof
    assume "(m, t, c) = ([], x # xs, [])"
    then show ?thesis by simp
  next
    assume "x \<in> set cs \<and> (\<exists>a c'. (a, t, c') \<in> set (rmatch (Star (Cls cs)) xs) \<and> m = x # a)"
    then obtain a c' where x: "x \<in> set cs" and a: "(a, t, c') \<in> set (rmatch (Star (Cls cs)) xs)"
      and m: "m = x # a" by blast
    from Cons.IH[OF a] x m show ?thesis by simp
  qed
qed

lemma rmatch_Plus_Cls_set:
  assumes "(m, t, c) \<in> set (rmatch (Plus (Cls cs)) s)"
  shows "set m \<subseteq> set cs" and "s = m @ t"
proof -
  show "s = m @ t" using assms by (rule rmatch_sound)
  from assms obtain x xs a c' where "s = x # xs" "x \<in> set cs" "m = x # a"
    "(a, t, c') \<in> set (rmatch (Star (Cls cs)) xs)"
    by (cases s) (auto simp: Plus_def split: if_splits)
  then show "set m \<subseteq> set cs" using rmatch_Star_Cls_set[of a t c' cs xs] by auto
qed

lemma takeWhile_disjoint:
  assumes "takeWhile P s \<noteq> []" and "\<And>c. P c \<Longrightarrow> \<not> Q c"
  shows "takeWhile Q s = []"
  using assms by (cases s) (auto split: if_splits)

lemma ws_not_hex: "c \<in> set whitespace \<Longrightarrow> c \<notin> set hexdigits"
  by (auto simp: whitespace_def hexdigits_def)

lemma rmatch_bliptag_re_None: "bliptag_at s = None \<Longrightarrow> rmatch bliptag_re s = []"
  by (auto simp: bliptag_at_def bliptag_re_def Opt_def strip_prefix_Cons rmatch_Plus_Cls_Nil
      digits_def split: option.splits list.splits if_splits)

lemma rmatch_bliptag_re_Some:
  assumes "bliptag_at s = Some v"
  shows "\<exists>t ms. rmatch bliptag_re s = (bs # v, t, [(''whole_tag'', v)]) # ms"
proof -
  from assms obtain t where t: "strip_prefix ([bs] @ ''bliptag'') s = Some t"
    by (auto simp: bliptag_at_def split: option.splits)
  show ?thesis
  proof (cases "strip_prefix ''-'' t")
    case None
    with assms t have d: "takeWhile (\<lambda>c. c \<in> set digits) t \<noteq> []"
      and v: "v = ''bliptag'' @ takeWhile (\<lambda>c. c \<in> set digits) t"
      by (auto simp: bliptag_at_def split: if_splits)
    from rmatch_Plus_Cls[OF d] obtain ms where
      "rmatch (Plus (Cls digits)) t =
         (takeWhile (\<lambda>c. c \<in> set digits) t, dropWhile (\<lambda>c. c \<in> set digits) t, []) # ms"
      by blast
    with t None v show ?thesis
      by (auto simp: bliptag_re_def Opt_def strip_prefix_Cons split: option.splits list.splits if_splits)
  next
    case (Some u)
    with assms t have d: "takeWhile (\<lambda>c. c \<in> set digits) u \<noteq> []"
      and v: "v = ''bliptag-'' @ takeWhile (\<lambda>c. c \<in> set digits) u"
      by (auto simp: bliptag_at_def split: if_splits)
    from Some have tu: "t = CHR ''-'' # u"
      by (auto simp: strip_prefix_Cons split: list.splits if_splits)
    have n: "rmatch (Plus (Cls digits)) (CHR ''-'' # u) = []"
      by (rule rmatch_Plus_Cls_Nil) (simp add: digits_def)
    from rmatch_Plus_Cls[OF d] obtain ms where
      "rmatch (Plus (Cls digits)) u =
         (takeWhile (\<lambda>c. c \<in> set digits) u, dropWhile (\<lambda>c. c \<in> set digits) u, []) # ms"
      by blast
    with t tu v n show ?thesis
      by (auto simp: bliptag_re_def Opt_def strip_prefix_Cons split: option.splits list.splits if_splits)
  qed
qed

lemma bliptag_at_start: "bliptag_at s = Some v \<Longrightarrow> \<exists>t. s = bs # t"
  by (auto simp: bliptag_at_def strip_prefix_Cons split: option.splits list.splits if_splits)

lemma bliptag_at_nobs: "bliptag_at s = Some v \<Longrightarrow> bs \<notin> set v"
  using bs_not_digit
  by (auto simp: bliptag_at_def split: option.splits if_splits dest!: set_takeWhileD)

lemma finditer_bliptag_re:
  "finditer bliptag_re s = map (\<lambda>v. (bs # v, [(''whole_tag'', v)])) (occurrences bliptag_at s)"
proof (rule finditer_occurrences[where tok = "\<lambda>v. v"])
  show "\<And>s. bliptag_at s = None \<Longrightarrow> rmatch bliptag_re s = []"
    by (rule rmatch_bliptag_re_None)
  show "\<And>s v. bliptag_at s = Some v \<Longrightarrow>
          \<exists>t ms. rmatch bliptag_re s = (bs # v, t, [(''whole_tag'', v)]) # ms"
    by (rule rmatch_bliptag_re_Some)
  show "\<And>s v. bliptag_at s = Some v \<Longrightarrow> bs \<notin> set v"
    by (rule bliptag_at_nobs)
  show "\<And>s v. bliptag_at s = Some v \<Longrightarrow> \<exists>t. s = bs # t"
    by (rule bliptag_at_start)
qed

lemma blipuid_re_eq:
  "blipuid_re =
     Seq (Lit [bs])
       (Grp ''whole_tag''
          (Seq (Lit ''blipuid'')
             (Seq (Plus (Cls whitespace)) (Grp ''unique_id'' (Plus (Cls hexdigits))))))"
  by (simp add: blipuid_re_def hexdigits_def)

lemma no_hex_after_whitespace:
  assumes el: "(m, t', c) \<in> set (rmatch (Plus (Cls whitespace)) t)"
    and h: "takeWhile (\<lambda>c. c \<in> set hexdigits) (dropWhile (\<lambda>c. c \<in> set whitespace) t) = []"
  shows "takeWhile (\<lambda>c. c \<in> set hexdigits) t' = []"
proof (cases "takeWhile (\<lambda>c. c \<in> set whitespace) t' = []")
  case False
  then show ?thesis by (rule takeWhile_disjoint) (rule ws_not_hex)
next
  case True
  from rmatch_Plus_Cls_set[OF el] have m: "set m \<subseteq> set whitespace" and t: "t = m @ t'" by auto
  from m have "dropWhile (\<lambda>c. c \<in> set whitespace) (m @ t') = dropWhile (\<lambda>c. c \<in> set whitespace) t'"
    by (intro dropWhile_append2) auto
  moreover from True have "dropWhile (\<lambda>c. c \<in> set whitespace) t' = t'"
    by (cases t') (auto split: if_splits)
  ultimately show ?thesis using h t by simp
qed

lemma rmatch_uid_None:
  assumes "takeWhile (\<lambda>c. c \<in> set hexdigits) (dropWhile (\<lambda>c. c \<in> set whitespace) t) = []"
  shows "rmatch (Seq (Plus (Cls whitespace)) (Grp ''unique_id'' (Plus (Cls hexdigits)))) t = []"
proof -
  have "\<And>m1. m1 \<in> set (rmatch (Plus (Cls whitespace)) t) \<Longrightarrow>
          rmatch (Plus (Cls hexdigits)) (fst (snd m1)) = []"
  proof -
    fix m1 assume "m1 \<in> set (rmatch (Plus (Cls whitespace)) t)"
    then have "(fst m1, fst (snd m1), snd (snd m1)) \<in> set (rmatch (Plus (Cls whitespace)) t)"
      by simp
    from no_hex_after_whitespace[OF this assms]
    show "rmatch (Plus (Cls hexdigits)) (fst (snd m1)) = []" by (rule rmatch_Plus_Cls_Nil)
  qed
  then show ?thesis by (simp add: concat_map_Nil)
qed

lemma rmatch_uid_None_ws:
  assumes "takeWhile (\<lambda>c. c \<in> set whitespace) t = []"
  shows "rmatch (Seq (Plus (Cls whitespace)) (Grp ''unique_id'' (Plus (Cls hexdigits)))) t = []"
  using rmatch_Plus_Cls_Nil[OF assms] by simp

lemma rmatch_Seq_Lit:
  "rmatch (Seq (Lit w) r) s =
     (case strip_prefix w s of
        None \<Rightarrow> []
      | Some t \<Rightarrow> map (\<lambda>m. (w @ fst m, fst (snd m), snd (snd m))) (rmatch r t))"
  by (simp split: option.splits)

lemma rmatch_blipuid_re:
  "rmatch blipuid_re s =
     (case strip_prefix ([bs] @ ''blipuid'') s of
        None \<Rightarrow> []
      | Some t \<Rightarrow>
          map (\<lambda>m. (bs # (''blipuid'' @ fst m), fst (snd m),
                     (''whole_tag'', ''blipuid'' @ fst m) # snd (snd m)))
              (rmatch (Seq (Plus (Cls whitespace)) (Grp ''unique_id'' (Plus (Cls hexdigits)))) t))"
  unfolding blipuid_re_eq strip_prefix_app[of "[bs]"]
  by (simp add: rmatch_Seq_Lit comp_def del: rmatch.simps(4) split: option.splits)

lemma rmatch_blipuid_re_None: "blipuid_at s = None \<Longrightarrow> rmatch blipuid_re s = []"
  unfolding rmatch_blipuid_re
  by (auto simp: blipuid_at_def rmatch_uid_None rmatch_uid_None_ws
      simp del: rmatch.simps(4) split: option.splits if_splits)

lemma rmatch_blipuid_re_Some:
  assumes "blipuid_at s = Some (w, h)"
  shows "\<exists>t ms. rmatch blipuid_re s =
           (bs # (''blipuid'' @ w @ h), t,
            [(''whole_tag'', ''blipuid'' @ w @ h), (''unique_id'', h)]) # ms"
proof -
  from assms obtain t where t: "strip_prefix ([bs] @ ''blipuid'') s = Some t"
    and w: "w = takeWhile (\<lambda>c. c \<in> set whitespace) t" "takeWhile (\<lambda>c. c \<in> set whitespace) t \<noteq> []"
    and h: "h = takeWhile (\<lambda>c. c \<in> set hexdigits) (dropWhile (\<lambda>c. c \<in> set whitespace) t)"
      "takeWhile (\<lambda>c. c \<in> set hexdigits) (dropWhile (\<lambda>c. c \<in> set whitespace) t) \<noteq> []"
    by (auto simp: blipuid_at_def split: option.splits if_splits)
  from rmatch_Plus_Cls[OF w(2)] obtain ms1 where
    m1: "rmatch (Plus (Cls whitespace)) t = (w, dropWhile (\<lambda>c. c \<in> set whitespace) t, []) # ms1"
    using w(1) by blast
  from rmatch_Plus_Cls[OF h(2)] obtain ms2 where
    m2: "rmatch (Plus (Cls hexdigits)) (dropWhile (\<lambda>c. c \<in> set whitespace) t) =
           (h, dropWhile (\<lambda>c. c \<in> set hexdigits) (dropWhile (\<lambda>c. c \<in> set whitespace) t), []) # ms2"
    using h(1) by blast
  show ?thesis unfolding rmatch_blipuid_re t by (simp add: m1 m2)
qed

lemma blipuid_at_start: "blipuid_at s = Some v \<Longrightarrow> \<exists>t. s = bs # t"
  by (auto simp: blipuid_at_def strip_prefix_Cons split: option.splits list.splits if_splits)

lemma bs_not_ws_hex: "bs \<notin> set whitespace" "bs \<notin> set hexdigits"
  by (simp_all add: whitespace_def hexdigits_def)

lemma blipuid_at_nobs: "blipuid_at s = Some v \<Longrightarrow> bs \<notin> set (''blipuid'' @ fst v @ snd v)"
  using bs_not_ws_hex
  by (auto simp: blipuid_at_def split: option.splits if_splits dest!: set_takeWhileD)

lemma finditer_blipuid_re:
  "finditer blipuid_re s =
     map (\<lambda>v. (bs # (''blipuid'' @ fst v @ snd v),
                [(''whole_tag'', ''blipuid'' @ fst v @ snd v), (''unique_id'', snd v)]))
         (occurrences blipuid_at s)"
proof (rule finditer_occurrences[where tok = "\<lambda>v. ''blipuid'' @ fst v @ snd v"])
  show "\<And>s. blipuid_at s = None \<Longrightarrow> rmatch blipuid_re s = []"
    by (rule rmatch_blipuid_re_None)
  show "\<And>s v. blipuid_at s = Some v \<Longrightarrow>
          \<exists>t ms. rmatch blipuid_re s =
            (bs # ''blipuid'' @ fst v @ snd v, t,
             [(''whole_tag'', ''blipuid'' @ fst v @ snd v), (''unique_id'', snd v)]) # ms"
    using rmatch_blipuid_re_Some by (metis (no_types) prod.collapse)
  show "\<And>s v. blipuid_at s = Some v \<Longrightarrow> bs \<notin> set (''blipuid'' @ fst v @ snd v)"
    by (rule blipuid_at_nobs)
  show "\<And>s v. blipuid_at s = Some v \<Longrightarrow> \<exists>t. s = bs # t"
    by (rule blipuid_at_start)
qed

lemma blip_loose_eq: "blip_loose text = set (bliptags text) \<union> snd ` set (blipuids text)"
  by (simp add: blip_loose_def finditer_bliptag_re finditer_blipuid_re bliptags_def blipuids_def
      image_image match_group_def)

lemma blip_strict_eq:
  "blip_strict text = (\<lambda>v. ''blipuid'' @ fst v @ snd v) ` set (blipuids text)"
  by (simp add: blip_strict_def finditer_blipuid_re blipuids_def image_image match_group_def)

lemma blip_obs_eq: "blip_obs text = (if bliptags text = [] then [] else [''OBS006''])"
  by (simp add: blip_obs_def finditer_bliptag_re bliptags_def)

lemma count_obs_006:
  "count_list (rsid_obs text) ''OBS006'' = 0" "count_list (image_obs text) ''OBS006'' = 0"
  "count_list (info_obs text) ''OBS006'' = 0"
  using set_rsid_obs[of "text"] set_image_obs[of "text"] set_info_obs[of "text"]
  by (auto intro!: count_list_0)

lemma count_analysis_obs_006:
  "count_list (analysis_obs data risky_items) ''OBS006'' =
     count_list (blip_obs (decode_ascii_ignore data)) ''OBS006''"
  by (simp add: analysis_obs_def Let_def count_obs_006)

subsection \<open>The image identifiers\<close>

text \<open>
  A \<^verbatim>\<open>bliptag\<close> match begins at a backslash followed by \<^verbatim>\<open>bliptag\<close>, an optional minus sign
  and one or more digits; \<open>bliptags\<close> lists, for each such place of the text, that control
  word with its sign and all its digits, without the backslash. A \<^verbatim>\<open>blipuid\<close> match begins at
  a backslash followed by \<^verbatim>\<open>blipuid\<close>, one or more whitespace characters and one or more of
  the characters \<^verbatim>\<open>a-f0-9\<close>; \<open>blipuids\<close> lists, for each such place, the whitespace and the
  identifier. They are the matches \<^verbatim>\<open>re.finditer\<close> reports (lemmas \<open>finditer_bliptag_re\<close>
  and \<open>finditer_blipuid_re\<close>).

  Claim C5. The image-identifier extractor returns without an error. It adds every
  \<^verbatim>\<open>bliptag\<close> match to the loose strings and appends \<^verbatim>\<open>OBS006\<close> once if there is at least one
  such match, however many there are, and nothing otherwise; for every \<^verbatim>\<open>blipuid\<close> match it
  adds the identifier alone to the loose strings and \<^verbatim>\<open>blipuid\<close>, the whitespace and the
  identifier to the strict strings, and appends no observation. In the result of the
  analysis these strings are present and \<^verbatim>\<open>OBS006\<close> is counted once or not at all accordingly.
\<close>

theorem blip_tags_extraction:
  assumes "parse_data data risky_items res = Inr r"
  shows "find_blip_tags (decode_ascii_ignore data) res3 =
           Inr (res3\<lparr>loose_strings :=
                        set (bliptags (decode_ascii_ignore data)) \<union> snd ` set (blipuids (decode_ascii_ignore data)) \<union> loose_strings res3,
                      strict_strings :=
                        (\<lambda>v. ''blipuid'' @ fst v @ snd v) ` set (blipuids (decode_ascii_ignore data))
                        \<union> strict_strings res3,
                      observations :=
                        observations res3 @ (if bliptags (decode_ascii_ignore data) = [] then [] else [''OBS006''])\<rparr>)
         \<and> set (bliptags (decode_ascii_ignore data)) \<subseteq> loose_strings r
         \<and> snd ` set (blipuids (decode_ascii_ignore data)) \<subseteq> loose_strings r
         \<and> (\<lambda>v. ''blipuid'' @ fst v @ snd v) ` set (blipuids (decode_ascii_ignore data)) \<subseteq> strict_strings r
         \<and> count_list (observations r) ''OBS006'' =
             count_list (observations res) ''OBS006'' + (if bliptags (decode_ascii_ignore data) = [] then 0 else 1)"
proof -
  note r = parse_data_result[OF assms]
  have a: "find_blip_tags (decode_ascii_ignore data) res3 =
           Inr (res3\<lparr>loose_strings :=
                        set (bliptags (decode_ascii_ignore data)) \<union> snd ` set (blipuids (decode_ascii_ignore data)) \<union> loose_strings res3,
                      strict_strings :=
                        (\<lambda>v. ''blipuid'' @ fst v @ snd v) ` set (blipuids (decode_ascii_ignore data))
                        \<union> strict_strings res3,
                      observations :=
                        observations res3 @ (if bliptags (decode_ascii_ignore data) = [] then [] else [''OBS006''])\<rparr>)"
    by (simp add: find_blip_tags_summary add_findings_def blip_loose_eq blip_strict_eq blip_obs_eq)
  have b: "set (bliptags (decode_ascii_ignore data)) \<subseteq> loose_strings r"
    "snd ` set (blipuids (decode_ascii_ignore data)) \<subseteq> loose_strings r"
    using r by (auto simp: analysis_loose_def blip_loose_eq)
  have c: "(\<lambda>v. ''blipuid'' @ fst v @ snd v) ` set (blipuids (decode_ascii_ignore data)) \<subseteq> strict_strings r"
    using r by (auto simp: analysis_strict_def blip_strict_eq)
  have "observations r = observations res @ analysis_obs data risky_items"
    using r by simp
  then have d: "count_list (observations r) ''OBS006'' =
             count_list (observations res) ''OBS006'' + (if bliptags (decode_ascii_ignore data) = [] then 0 else 1)"
    by (simp add: count_analysis_obs_006 blip_obs_eq)
  from a b c d show ?thesis by simp
qed

text \<open>
  \<^verbatim>\<open>DOC_BLIPTAG\<close> is the document of the repository's test. \<^verbatim>\<open>DOC_BLIPS\<close> has two \<^verbatim>\<open>bliptag\<close>
  matches and two \<^verbatim>\<open>blipuid\<close> matches, next to a \<^verbatim>\<open>bliptag\<close> and a \<^verbatim>\<open>blipuid\<close> that do not
  match; \<^verbatim>\<open>DOC_BLIPUID_ONLY\<close> has a \<^verbatim>\<open>blipuid\<close> match alone.
\<close>

lemma DOC_BLIPS_result:
  "parse_data DOC_BLIPS True empty_results =
     Inr \<lparr>loose_strings = {''00ff'', ''7'', ''bliptag-12'', ''bliptag34''},
          strict_strings = {''blipuid '' @ [CHR 0x09] @ ''00ff'', ''blipuid 7''},
          observations = [''OBS006'']\<rparr>"
  by code_simp

lemma DOC_BLIPUID_ONLY_result:
  "parse_data DOC_BLIPUID_ONLY True empty_results =
     Inr \<lparr>loose_strings = {''00aa''}, strict_strings = {''blipuid 00aa''}, observations = []\<rparr>"
  by code_simp

theorem blip_tags_extraction_witness:
  "parse_data DOC_BLIPS True empty_results =
     Inr \<lparr>loose_strings = {''00ff'', ''7'', ''bliptag-12'', ''bliptag34''},
          strict_strings = {''blipuid '' @ [CHR 0x09] @ ''00ff'', ''blipuid 7''},
          observations = [''OBS006'']\<rparr>
   \<and> bliptags (decode_ascii_ignore DOC_BLIPS) = [''bliptag-12'', ''bliptag34'']
   \<and> blipuids (decode_ascii_ignore DOC_BLIPS) = [('' '' @ [CHR 0x09], ''00ff''), ('' '', ''7'')]
   \<and> count_list [''OBS006''] ''OBS006'' = 1
   \<and> parse_data DOC_BLIPUID_ONLY True empty_results =
       Inr \<lparr>loose_strings = {''00aa''}, strict_strings = {''blipuid 00aa''}, observations = []\<rparr>
   \<and> bliptags (decode_ascii_ignore DOC_BLIPUID_ONLY) = []
   \<and> blipuids (decode_ascii_ignore DOC_BLIPUID_ONLY) = [('' '', ''00aa'')]
   \<and> count_list [] ''OBS006'' = 0"
proof -
  have t: "bliptags (decode_ascii_ignore DOC_BLIPS) = [''bliptag-12'', ''bliptag34'']"
    by code_simp
  have u: "blipuids (decode_ascii_ignore DOC_BLIPS) = [('' '' @ [CHR 0x09], ''00ff''), ('' '', ''7'')]"
    by code_simp
  have t0: "bliptags (decode_ascii_ignore DOC_BLIPUID_ONLY) = []"
    by code_simp
  have u0: "blipuids (decode_ascii_ignore DOC_BLIPUID_ONLY) = [('' '', ''00aa'')]"
    by code_simp
  from blip_tags_extraction[OF DOC_BLIPS_result] t
  have a: "count_list [''OBS006''] ''OBS006'' = 1"
    by (simp add: empty_results_def)
  from blip_tags_extraction[OF DOC_BLIPUID_ONLY_result] t0
  have b: "count_list [] ''OBS006'' = 0"
    by (simp add: empty_results_def)
  from a b t u t0 u0 DOC_BLIPS_result DOC_BLIPUID_ONLY_result show ?thesis by simp
qed

lemma DOC_BLIPTAG_result:
  "RtfAnalyser Map.empty None (PyBytes DOC_BLIPTAG) True =
     Inr \<lparr>loose_strings = {''0011223344556677889900aabbccddeeff'', ''bliptag-1234567890''},
          strict_strings = {''blipuid 0011223344556677889900aabbccddeeff''},
          observations = [''OBS006'']\<rparr>"
  by code_simp

text \<open>
  A pattern whose first match at a position is what a recogniser finds there: the scan of
  \<^verbatim>\<open>re.finditer\<close> reports what the recogniser finds at the first position where it finds
  something, resumes where that match ended, and so on.
\<close>

lemma finditer_scan:
  assumes none: "\<And>s. at s = None \<Longrightarrow> rmatch r s = []"
    and some: "\<And>s v. at s = Some v \<Longrightarrow> v \<noteq> [] \<and> (\<exists>t c ms. rmatch r s = (v, t, c) # ms)"
  shows "map fst (finditer r s) = scan at s"
proof (induction "length s" arbitrary: s rule: less_induct)
  case less
  show ?case
  proof (cases s)
    case Nil
    have "at [] = None"
    proof (cases "at []")
      case (Some v)
      from some[OF Some] obtain t c ms where "v \<noteq> []" "rmatch r [] = (v, t, c) # ms" by blast
      with rmatch_sound[of v t c r "[]"] show ?thesis by simp
    qed simp
    with Nil none[of "[]"] show ?thesis by simp
  next
    case (Cons x xs)
    show ?thesis
    proof (cases "at s")
      case None
      with none Cons have "finditer r s = finditer r xs" by simp
      moreover have "map fst (finditer r xs) = scan at xs" using less[of xs] Cons by simp
      ultimately show ?thesis using None Cons by simp
    next
      case (Some v)
      from some[OF Some] obtain t c ms where v: "v \<noteq> []" and m: "rmatch r s = (v, t, c) # ms"
        by blast
      have st: "s = v @ t" using rmatch_sound[of v t c r s] m by simp
      have "finditer r s = (v, c) # finditer r t" using finditer_hit[OF m v] .
      moreover have "map fst (finditer r t) = scan at t" using less[of t] st v by simp
      moreover have "drop (length v - 1) xs = t"
      proof -
        from v obtain y ys where "v = y # ys" by (cases v) auto
        with st Cons show ?thesis by simp
      qed
      ultimately show ?thesis using Some Cons by simp
    qed
  qed
qed

text \<open>A named group around the whole pattern captures the whole match.\<close>

lemma finditer_Grp_whole:
  assumes "mc \<in> set (finditer (Grp n r) s)"
  shows "match_group mc n = fst mc"
proof -
  from finditer_elem[OF assms] obtain t x ms where "rmatch (Grp n r) t = x # ms"
    and mc: "mc = (fst x, snd (snd x))" by blast
  then have "x \<in> set (rmatch (Grp n r) t)" by simp
  then have "\<exists>c. snd (snd x) = (n, fst x) # c" by auto
  with mc show ?thesis by (auto simp: match_group_def)
qed

lemma finditer_Grp_scan:
  assumes none: "\<And>s. at s = None \<Longrightarrow> rmatch (Grp n r) s = []"
    and some: "\<And>s v. at s = Some v \<Longrightarrow> v \<noteq> [] \<and> (\<exists>t c ms. rmatch (Grp n r) s = (v, t, c) # ms)"
  shows "map (\<lambda>m. match_group m n) (finditer (Grp n r) s) = scan at s"
proof -
  have "map (\<lambda>m. match_group m n) (finditer (Grp n r) s) = map fst (finditer (Grp n r) s)"
    by (rule map_cong[OF refl]) (rule finditer_Grp_whole)
  with finditer_scan[of at "Grp n r", OF none some] show ?thesis by simp
qed

lemma image_size_re_eq: "image_size_re = Grp ''longest_match'' (Plus size_unit_re)"
  by (simp add: image_size_re_def size_unit_re_def)

lemma rmatch_size_value_None:
  assumes "takeWhile (\<lambda>c. c \<in> set digits) s = []"
  shows "rmatch size_value s = []"
  using rmatch_Plus_Cls_Nil[OF assms] by (simp add: size_value_def)

lemma rmatch_size_value_Some:
  assumes "takeWhile (\<lambda>c. c \<in> set digits) s \<noteq> []"
  shows "\<exists>ms. rmatch size_value s =
           (takeWhile (\<lambda>c. c \<in> set digits) s
            @ takeWhile (\<lambda>c. c \<in> set whitespace) (dropWhile (\<lambda>c. c \<in> set digits) s),
            dropWhile (\<lambda>c. c \<in> set whitespace) (dropWhile (\<lambda>c. c \<in> set digits) s), []) # ms"
proof -
  from rmatch_Plus_Cls[OF assms] obtain ms1 where
    m1: "rmatch (Plus (Cls digits)) s =
           (takeWhile (\<lambda>c. c \<in> set digits) s, dropWhile (\<lambda>c. c \<in> set digits) s, []) # ms1"
    by blast
  from rmatch_Star_Cls[of whitespace "dropWhile (\<lambda>c. c \<in> set digits) s"] obtain ms2 where
    m2: "rmatch (Star (Cls whitespace)) (dropWhile (\<lambda>c. c \<in> set digits) s) =
           (takeWhile (\<lambda>c. c \<in> set whitespace) (dropWhile (\<lambda>c. c \<in> set digits) s),
            dropWhile (\<lambda>c. c \<in> set whitespace) (dropWhile (\<lambda>c. c \<in> set digits) s), []) # ms2"
    by blast
  show ?thesis by (simp add: size_value_def m1 m2)
qed

lemma rmatch_tag_unit_None:
  assumes "tag_unit s tag = None"
  shows "rmatch (Seq (Lit tag) size_value) s = []"
  using assms
  by (auto simp: tag_unit_def rmatch_size_value_None split: option.splits if_splits)

lemma rmatch_tag_unit_Some:
  assumes "tag_unit s tag = Some v"
  shows "\<exists>t ms. rmatch (Seq (Lit tag) size_value) s = (v, t, []) # ms"
proof -
  from assms obtain t where t: "strip_prefix tag s = Some t"
    and d: "takeWhile (\<lambda>c. c \<in> set digits) t \<noteq> []"
    and v: "v = tag @ takeWhile (\<lambda>c. c \<in> set digits) t
                @ takeWhile (\<lambda>c. c \<in> set whitespace) (dropWhile (\<lambda>c. c \<in> set digits) t)"
    by (auto simp: tag_unit_def split: option.splits if_splits)
  from rmatch_size_value_Some[OF d] obtain ms where
    "rmatch size_value t =
       (takeWhile (\<lambda>c. c \<in> set digits) t
        @ takeWhile (\<lambda>c. c \<in> set whitespace) (dropWhile (\<lambda>c. c \<in> set digits) t),
        dropWhile (\<lambda>c. c \<in> set whitespace) (dropWhile (\<lambda>c. c \<in> set digits) t), []) # ms"
    by blast
  with t v show ?thesis by simp
qed

lemma rmatch_Seq_Alt: "rmatch (Seq (Alt a b) r) s = rmatch (Seq a r) s @ rmatch (Seq b r) s"
  by simp

lemma alts_Cons: "tags \<noteq> [] \<Longrightarrow> alts (map Lit (tag # tags)) = Alt (Lit tag) (alts (map Lit tags))"
  by (cases tags) simp_all

lemma rmatch_tags_None:
  assumes "first_some (tag_unit s) tags = None" and "tags \<noteq> []"
  shows "rmatch (Seq (alts (map Lit tags)) size_value) s = []"
  using assms
proof (induction tags)
  case Nil
  then show ?case by simp
next
  case (Cons tag tags)
  from Cons.prems have a: "tag_unit s tag = None" and b: "first_some (tag_unit s) tags = None"
    by (simp_all split: option.splits)
  show ?case
  proof (cases "tags = []")
    case True
    with rmatch_tag_unit_None[OF a] show ?thesis by simp
  next
    case False
    from Cons.IH[OF b False] rmatch_tag_unit_None[OF a] show ?thesis
      by (simp only: alts_Cons[OF False] rmatch_Seq_Alt) simp
  qed
qed

lemma rmatch_tags_Some:
  assumes "first_some (tag_unit s) tags = Some v"
  shows "\<exists>t ms. rmatch (Seq (alts (map Lit tags)) size_value) s = (v, t, []) # ms"
  using assms
proof (induction tags)
  case Nil
  then show ?case by simp
next
  case (Cons tag tags)
  show ?case
  proof (cases "tag_unit s tag")
    case (Some u)
    with Cons.prems have "u = v" by simp
    with rmatch_tag_unit_Some[OF Some] obtain t ms where
      m: "rmatch (Seq (Lit tag) size_value) s = (v, t, []) # ms" by blast
    show ?thesis
    proof (cases "tags = []")
      case True
      with m show ?thesis by simp
    next
      case False
      from m show ?thesis by (simp only: alts_Cons[OF False] rmatch_Seq_Alt) simp
    qed
  next
    case None
    with Cons.prems have b: "first_some (tag_unit s) tags = Some v" by simp
    then have ne: "tags \<noteq> []" by auto
    from Cons.IH[OF b] obtain t ms where
      m: "rmatch (Seq (alts (map Lit tags)) size_value) s = (v, t, []) # ms" by blast
    from m rmatch_tag_unit_None[OF None] show ?thesis
      by (simp only: alts_Cons[OF ne] rmatch_Seq_Alt) simp
  qed
qed

lemma size_unit_re_eq:
  "size_unit_re = Seq (Lit [bs]) (Seq (alts (map Lit image_tags)) size_value)"
  by (simp add: size_unit_re_def image_tags_def size_value_def)

lemma rmatch_size_unit_None:
  assumes "size_unit s = None"
  shows "rmatch size_unit_re s = []"
proof (cases s)
  case Nil
  then show ?thesis by (simp add: size_unit_re_eq rmatch_Seq_Lit)
next
  case (Cons k t)
  show ?thesis
  proof (cases "k = bs")
    case False
    with Cons show ?thesis by (simp add: size_unit_re_eq rmatch_Seq_Lit del: rmatch.simps(4))
  next
    case True
    with assms Cons have "first_some (tag_unit t) image_tags = None"
      by (simp add: size_unit_def)
    from rmatch_tags_None[OF this] have "rmatch (Seq (alts (map Lit image_tags)) size_value) t = []"
      by (simp add: image_tags_def)
    with True Cons show ?thesis by (simp add: size_unit_re_eq rmatch_Seq_Lit del: rmatch.simps(4))
  qed
qed

lemma rmatch_size_unit_Some:
  assumes "size_unit s = Some u"
  shows "u \<noteq> [] \<and> (\<exists>t ms. rmatch size_unit_re s = (u, t, []) # ms)"
proof -
  from assms obtain t v where s: "s = bs # t" and v: "first_some (tag_unit t) image_tags = Some v"
    and u: "u = bs # v"
    by (auto simp: size_unit_def split: list.splits if_splits)
  from rmatch_tags_Some[OF v] obtain t' ms where
    "rmatch (Seq (alts (map Lit image_tags)) size_value) t = (v, t', []) # ms" by blast
  with s u show ?thesis by (simp add: size_unit_re_eq rmatch_Seq_Lit del: rmatch.simps(4))
qed

lemma unit_rest:
  assumes "rmatch size_unit_re (x # xs) = (u, t, c) # ms" and "u \<noteq> []"
  shows "t = drop (length u - 1) xs" and "length t < length (x # xs)"
proof -
  have st: "x # xs = u @ t" using rmatch_sound[of u t c size_unit_re "x # xs"] assms(1) by simp
  from assms(2) obtain y ys where "u = y # ys" by (cases u) auto
  with st show "t = drop (length u - 1) xs" by simp
  have "length (x # xs) = length u + length t" unfolding st by simp
  with assms(2) show "length t < length (x # xs)" by simp
qed

lemma rmatch_Star_unit: "\<exists>t ms. rmatch (Star size_unit_re) s = (size_run s, t, []) # ms"
proof (induction s rule: size_run.induct)
  case 1
  have "size_unit [] = None" by (simp add: size_unit_def)
  from rmatch_size_unit_None[OF this] show ?case by (subst rmatch.simps(6)) simp
next
  case (2 x xs)
  show ?case
  proof (cases "size_unit (x # xs)")
    case None
    from rmatch_size_unit_None[OF None] None show ?thesis by (subst rmatch.simps(6)) simp
  next
    case (Some u)
    from rmatch_size_unit_Some[OF Some] obtain t ms where u: "u \<noteq> []"
      and m: "rmatch size_unit_re (x # xs) = (u, t, []) # ms" by blast
    note r = unit_rest[OF m u]
    from "2.IH"[OF Some] r(1) obtain t' ms' where
      i: "rmatch (Star size_unit_re) t = (size_run t, t', []) # ms'" by blast
    from Some r(1) have sr: "size_run (x # xs) = u @ size_run t" by simp
    show ?thesis
      unfolding sr using r(2) by (subst rmatch.simps(6)) (simp add: m i)
  qed
qed

lemma rmatch_image_size_re_None:
  assumes "size_run_at s = None"
  shows "rmatch image_size_re s = []"
proof -
  from assms have "size_unit s = None" by (simp add: size_run_at_def split: option.splits)
  from rmatch_size_unit_None[OF this] show ?thesis by (simp add: image_size_re_eq Plus_def)
qed

lemma rmatch_image_size_re_Some:
  assumes "size_run_at s = Some v"
  shows "v \<noteq> [] \<and> (\<exists>t c ms. rmatch image_size_re s = (v, t, c) # ms)"
proof -
  from assms obtain u where su: "size_unit s = Some u" and v: "v = size_run s"
    by (auto simp: size_run_at_def split: option.splits)
  from su obtain x xs where s: "s = x # xs" by (cases s) (auto simp: size_unit_def)
  from rmatch_size_unit_Some[OF su] obtain t ms where u: "u \<noteq> []"
    and m: "rmatch size_unit_re s = (u, t, []) # ms" by blast
  note r = unit_rest[OF m[unfolded s] u]
  from rmatch_Star_unit[of t] obtain t' ms' where
    i: "rmatch (Star size_unit_re) t = (size_run t, t', []) # ms'" by blast
  from su r(1) s have sr: "size_run s = u @ size_run t" by simp
  from u sr v have "v \<noteq> []" by simp
  moreover have "\<exists>t c ms. rmatch image_size_re s = (v, t, c) # ms"
    unfolding v sr by (simp add: image_size_re_eq Plus_def m i)
  ultimately show ?thesis by simp
qed

lemma finditer_image_size_re:
  "map (\<lambda>m. match_group m ''longest_match'') (finditer image_size_re text) = size_runs text"
  unfolding size_runs_def image_size_re_eq
proof (rule finditer_Grp_scan)
  show "\<And>s. size_run_at s = None \<Longrightarrow> rmatch (Grp ''longest_match'' (Plus size_unit_re)) s = []"
    using rmatch_image_size_re_None by (simp add: image_size_re_eq)
  show "\<And>s v. size_run_at s = Some v \<Longrightarrow>
          v \<noteq> [] \<and> (\<exists>t c ms. rmatch (Grp ''longest_match'' (Plus size_unit_re)) s = (v, t, c) # ms)"
    using rmatch_image_size_re_Some unfolding image_size_re_eq by blast
qed

lemma scan_elem: "v \<in> set (scan at s) \<Longrightarrow> \<exists>t. at t = Some v"
  by (induction at s rule: scan.induct) (auto split: option.splits)

lemma size_unit_start: "size_unit s = Some u \<Longrightarrow> \<exists>v. u = bs # v"
  by (auto simp: size_unit_def split: list.splits if_splits)

lemma size_run_at_start:
  assumes "size_run_at s = Some v"
  shows "\<exists>w. v = bs # w"
proof -
  from assms obtain u where u: "size_unit s = Some u" and v: "v = size_run s"
    by (auto simp: size_run_at_def split: option.splits)
  from u obtain x xs where "s = x # xs" by (cases s) (auto simp: size_unit_def)
  with u v size_unit_start[OF u] show ?thesis by auto
qed

lemma strip_run:
  assumes "v \<in> set (size_runs text)"
  shows "strip v = rstrip v"
proof -
  from scan_elem[OF assms[unfolded size_runs_def]] obtain t where "size_run_at t = Some v" by blast
  from size_run_at_start[OF this] obtain w where "v = bs # w" by blast
  then show ?thesis by (simp add: strip_def rstrip_def whitespace_def)
qed

lemma image_loose_eq: "image_loose text = rstrip ` set (size_runs text)"
proof -
  have "image_loose text = strip ` set (map (\<lambda>m. match_group m ''longest_match'')
                                           (finditer image_size_re text))"
    by (simp add: image_loose_def image_image)
  also have "\<dots> = strip ` set (size_runs text)" by (simp only: finditer_image_size_re)
  also have "\<dots> = rstrip ` set (size_runs text)" by (rule image_cong[OF refl]) (rule strip_run)
  finally show ?thesis .
qed

lemma image_obs_eq: "image_obs text = (if size_runs text = [] then [] else [''OBS004''])"
proof -
  have "(finditer image_size_re text = []) = (size_runs text = [])"
    unfolding finditer_image_size_re[symmetric] by simp
  then show ?thesis by (simp add: image_obs_def)
qed

lemma count_obs_004:
  "count_list (rsid_obs text) ''OBS004'' = 0" "count_list (blip_obs text) ''OBS004'' = 0"
  "count_list (info_obs text) ''OBS004'' = 0"
  using set_rsid_obs[of "text"] set_blip_obs[of "text"] set_info_obs[of "text"]
  by (auto intro!: count_list_0)

lemma count_analysis_obs_004:
  "count_list (analysis_obs data risky_items) ''OBS004'' =
     count_list (image_obs (decode_ascii_ignore data)) ''OBS004''"
  by (simp add: analysis_obs_def Let_def count_obs_004)

text \<open>A run cannot be continued: no unit begins where the run found at a position ends.\<close>

lemma size_run_maximal: "size_unit (drop (length (size_run s)) s) = None"
proof (induction s rule: size_run.induct)
  case 1
  show ?case by (simp add: size_unit_def)
next
  case (2 x xs)
  show ?case
  proof (cases "size_unit (x # xs)")
    case None
    then show ?thesis by simp
  next
    case (Some u)
    from size_unit_start[OF Some] obtain v where u: "u = bs # v" by blast
    have "drop (length (size_run (x # xs))) (x # xs) =
            drop (length (size_run (drop (length u - 1) xs))) (drop (length u - 1) xs)"
      using Some u by (simp add: add.commute)
    with "2.IH"[OF Some] show ?thesis by simp
  qed
qed

subsection \<open>The image dimensions\<close>

text \<open>
  A unit is a backslash, one of \<^verbatim>\<open>picw\<close>, \<^verbatim>\<open>pich\<close>, \<^verbatim>\<open>picwgoal\<close>, \<^verbatim>\<open>pichgoal\<close>, all the digits
  that follow, of which there is at least one, and all the whitespace after them. The run
  at a position where a unit begins, \<open>size_run\<close>, is that unit and the units that follow one
  another from there; it cannot be continued (lemma \<open>size_run_maximal\<close>). \<open>size_runs\<close> lists
  the runs of a text from left to right, the search for the next run resuming where the
  last one ended; they are the matches \<^verbatim>\<open>re.finditer\<close> reports (lemma
  \<open>finditer_image_size_re\<close>). \<open>rstrip\<close> removes the whitespace at the end of a string.

  Claim C4. The image-dimension extractor returns without an error. For every run it adds
  one string to the loose strings, the whole run without its trailing whitespace, whatever
  the number of tags in the run; it appends \<^verbatim>\<open>OBS004\<close> once if there is at least one run and
  nothing if there is none. In the result of the analysis these strings are present and
  \<^verbatim>\<open>OBS004\<close> is counted once or not at all accordingly.
\<close>

theorem image_size_runs:
  assumes "parse_data data risky_items res = Inr r"
  shows "find_image_sizes (decode_ascii_ignore data) res3 =
           Inr (res3\<lparr>loose_strings := rstrip ` set (size_runs (decode_ascii_ignore data)) \<union> loose_strings res3,
                      observations :=
                        observations res3 @ (if size_runs (decode_ascii_ignore data) = [] then [] else [''OBS004''])\<rparr>)
         \<and> rstrip ` set (size_runs (decode_ascii_ignore data)) \<subseteq> loose_strings r
         \<and> count_list (observations r) ''OBS004'' =
             count_list (observations res) ''OBS004'' + (if size_runs (decode_ascii_ignore data) = [] then 0 else 1)"
proof -
  note r = parse_data_result[OF assms]
  have a: "find_image_sizes (decode_ascii_ignore data) res3 =
           Inr (res3\<lparr>loose_strings := rstrip ` set (size_runs (decode_ascii_ignore data)) \<union> loose_strings res3,
                      observations :=
                        observations res3 @ (if size_runs (decode_ascii_ignore data) = [] then [] else [''OBS004''])\<rparr>)"
    by (simp add: find_image_sizes_summary add_findings_def image_loose_eq image_obs_eq)
  have b: "rstrip ` set (size_runs (decode_ascii_ignore data)) \<subseteq> loose_strings r"
    using r by (auto simp: analysis_loose_def image_loose_eq)
  have "observations r = observations res @ analysis_obs data risky_items"
    using r by simp
  then have c: "count_list (observations r) ''OBS004'' =
             count_list (observations res) ''OBS004'' + (if size_runs (decode_ascii_ignore data) = [] then 0 else 1)"
    by (simp add: count_analysis_obs_004 image_obs_eq)
  from a b c show ?thesis by simp
qed

text \<open>
  \<^verbatim>\<open>DOC_PICTURE\<close> is the document of the repository's test: one run of four tags, one string.
  \<^verbatim>\<open>DOC_TWO_RUNS\<close> has two runs of two tags each, with whitespace inside and at the end, and
  a tag without digits; \<^verbatim>\<open>DOC_NO_SIZES\<close> has tags without digits only.
\<close>

lemma DOC_PICTURE_result:
  "parse_data DOC_PICTURE True empty_results =
     Inr \<lparr>loose_strings = {[bs] @ ''picw10'' @ [bs] @ ''pich10'' @ [bs] @ ''picwgoal10'' @ [bs]
                             @ ''pichgoal10''},
          strict_strings = {}, observations = [''OBS004'']\<rparr>"
  by code_simp

lemma DOC_TWO_RUNS_result:
  "parse_data DOC_TWO_RUNS True empty_results =
     Inr \<lparr>loose_strings = {[bs] @ ''picw10 '' @ [bs] @ ''pich20'',
                             [bs] @ ''picwgoal5'' @ [bs] @ ''pichgoal6''},
          strict_strings = {}, observations = [''OBS004'']\<rparr>"
  by code_simp

lemma DOC_NO_SIZES_result:
  "parse_data DOC_NO_SIZES True empty_results =
     Inr \<lparr>loose_strings = {}, strict_strings = {}, observations = []\<rparr>"
  by code_simp

theorem image_size_runs_witness:
  "parse_data DOC_PICTURE True empty_results =
     Inr \<lparr>loose_strings = {[bs] @ ''picw10'' @ [bs] @ ''pich10'' @ [bs] @ ''picwgoal10'' @ [bs]
                             @ ''pichgoal10''},
          strict_strings = {}, observations = [''OBS004'']\<rparr>
   \<and> size_runs (decode_ascii_ignore DOC_PICTURE) =
       [[bs] @ ''picw10'' @ [bs] @ ''pich10'' @ [bs] @ ''picwgoal10'' @ [bs] @ ''pichgoal10 '']
   \<and> parse_data DOC_TWO_RUNS True empty_results =
     Inr \<lparr>loose_strings = {[bs] @ ''picw10 '' @ [bs] @ ''pich20'',
                             [bs] @ ''picwgoal5'' @ [bs] @ ''pichgoal6''},
          strict_strings = {}, observations = [''OBS004'']\<rparr>
   \<and> size_runs (decode_ascii_ignore DOC_TWO_RUNS) =
       [[bs] @ ''picw10 '' @ [bs] @ ''pich20  '', [bs] @ ''picwgoal5'' @ [bs] @ ''pichgoal6'' @ [CHR 0x0A]]
   \<and> count_list [''OBS004''] ''OBS004'' = 1
   \<and> parse_data DOC_NO_SIZES True empty_results =
       Inr \<lparr>loose_strings = {}, strict_strings = {}, observations = []\<rparr>
   \<and> size_runs (decode_ascii_ignore DOC_NO_SIZES) = []
   \<and> count_list [] ''OBS004'' = 0"
proof -
  have p: "size_runs (decode_ascii_ignore DOC_PICTURE) =
       [[bs] @ ''picw10'' @ [bs] @ ''pich10'' @ [bs] @ ''picwgoal10'' @ [bs] @ ''pichgoal10 '']"
    by code_simp
  have t: "size_runs (decode_ascii_ignore DOC_TWO_RUNS) =
       [[bs] @ ''picw10 '' @ [bs] @ ''pich20  '', [bs] @ ''picwgoal5'' @ [bs] @ ''pichgoal6'' @ [CHR 0x0A]]"
    by code_simp
  have n: "size_runs (decode_ascii_ignore DOC_NO_SIZES) = []"
    by code_simp
  from image_size_runs[OF DOC_TWO_RUNS_result] t
  have a: "count_list [''OBS004''] ''OBS004'' = 1"
    by (simp add: empty_results_def)
  from image_size_runs[OF DOC_PICTURE_result] p
  have a': "count_list [''OBS004''] ''OBS004'' = 1"
    by (simp add: empty_results_def)
  from image_size_runs[OF DOC_NO_SIZES_result] n
  have b: "count_list [] ''OBS004'' = 0"
    by (simp add: empty_results_def)
  from a b p t n DOC_PICTURE_result DOC_TWO_RUNS_result DOC_NO_SIZES_result show ?thesis by simp
qed



























subsection \<open>The document information\<close>





end
